theory Spec2Isabelle
  imports Complex_Main "HOL-Library.AList"
begin

section \<open>Python values, dictionaries and exceptions\<close>

text \<open>
  The values that flow through \<^verbatim>\<open>classifyComments_upgrade.py\<close> and
  \<^verbatim>\<open>classifyComments.py\<close>: the cells of a CSV row, the Lambda event and whatever
  \<^verbatim>\<open>json.loads\<close> returns for the service's answer. A Python \<^verbatim>\<open>dict\<close> is an
  association list in insertion order: a lookup takes the first entry of a key, an
  assignment replaces the entry in place or appends a new one (\<open>AList.update\<close>).
  JSON numbers are restricted to integers, and the keys of a row are strings. The calls of
  the logger are left out, but for the record of the failed batches below.
\<close>

datatype pyval =
    PNone
  | PBool bool
  | PInt int
  | PStr string
  | PList "pyval list"
  | PDict "(string \<times> pyval) list"

type_synonym comment = "(string \<times> pyval) list"

datatype py_exc_class =
    APIError | JSONDecodeError | RetryError
  | KeyError | TypeError | AttributeError | ValueError | ZeroDivisionError

text \<open>An exception: its class and, for tenacity's \<^verbatim>\<open>RetryError\<close>, the exception of
  the last attempt that it wraps.\<close>

datatype py_exc = Exc (exc_class: py_exc_class) (last_attempt: "py_exc option")

text \<open>
  An f-string is kept as the list of its literal parts and of the values it formats:
  \<open>Fmt v\<close> stands for Python's \<^verbatim>\<open>format(v, '')\<close>, which is \<open>s\<close> itself for a
  \<^verbatim>\<open>str\<close> \<open>s\<close>. String concatenation is list append.
\<close>

datatype fpart = Lit string | Fmt pyval

type_synonym fstring = "fpart list"

text \<open>Truthiness of a string (\<^verbatim>\<open>if s3_uri:\<close>): it is not empty. Only the empty
  \<^verbatim>\<open>str\<close> formats to the empty string.\<close>

fun fpart_nonempty :: "fpart \<Rightarrow> bool" where
  "fpart_nonempty (Lit s) = (s \<noteq> [])"
| "fpart_nonempty (Fmt v) = (v \<noteq> PStr [])"

definition truthy :: "fstring \<Rightarrow> bool" where
  "truthy s = list_ex fpart_nonempty s"

text \<open>\<^verbatim>\<open>d[k]\<close> on a dict raises \<^verbatim>\<open>KeyError\<close> for a missing key;
  \<^verbatim>\<open>d.get(k, default)\<close> does not.\<close>

definition getitem :: "(string \<times> pyval) list \<Rightarrow> string \<Rightarrow> py_exc + pyval" where
  "getitem d k = (case map_of d k of None \<Rightarrow> Inl (Exc KeyError None) | Some v \<Rightarrow> Inr v)"

definition dict_get :: "(string \<times> pyval) list \<Rightarrow> string \<Rightarrow> pyval \<Rightarrow> pyval" where
  "dict_get d k dflt = (case map_of d k of None \<Rightarrow> dflt | Some v \<Rightarrow> v)"

section \<open>Batch partition: \<^verbatim>\<open>range(0, len(comments), batch_size)\<close> and the slice\<close>

function range_list :: "int \<Rightarrow> int \<Rightarrow> int \<Rightarrow> int list" where
  "range_list i stop step =
     (if (0 < step \<and> i < stop) \<or> (step < 0 \<and> stop < i)
      then i # range_list (i + step) stop step else [])"
  by pat_completeness auto
termination
  by (relation "measure (\<lambda>(i, stop, step). nat (if 0 < step then stop - i else i - stop))") auto

declare range_list.simps [simp del]

text \<open>\<^verbatim>\<open>range(start, stop, step)\<close> raises \<^verbatim>\<open>ValueError\<close> for a zero step.\<close>

definition py_range :: "int \<Rightarrow> int \<Rightarrow> int \<Rightarrow> py_exc + int list" where
  "py_range start stop step =
     (if step = 0 then Inl (Exc ValueError None) else Inr (range_list start stop step))"

text \<open>\<^verbatim>\<open>xs[i:j]\<close>: a negative index counts from the end, and both are clamped to
  the list.\<close>

definition clamp_index :: "int \<Rightarrow> int \<Rightarrow> int" where
  "clamp_index n k = (if k < 0 then max 0 (k + n) else min k n)"

definition py_slice :: "'a list \<Rightarrow> int \<Rightarrow> int \<Rightarrow> 'a list" where
  "py_slice xs i j =
     (let n = int (length xs); lo = clamp_index n i; hi = clamp_index n j
      in take (nat (hi - lo)) (drop (nat lo) xs))"

text \<open>\<^verbatim>\<open>batch_comments = comments[i : i + batch_size]\<close>\<close>

definition batch_comments :: "'a list \<Rightarrow> int \<Rightarrow> int \<Rightarrow> 'a list" where
  "batch_comments comments batch_size i = py_slice comments i (i + batch_size)"

text \<open>\<^verbatim>\<open>total_batches = (len(comments) + batch_size - 1) // batch_size\<close>; Python's
  \<^verbatim>\<open>//\<close> is floor division, as \<open>div\<close> on \<open>int\<close> is, and raises for a zero divisor.\<close>

definition total_batches :: "'a list \<Rightarrow> int \<Rightarrow> py_exc + int" where
  "total_batches comments batch_size =
     (if batch_size = 0 then Inl (Exc ZeroDivisionError None)
      else Inr ((int (length comments) + batch_size - 1) div batch_size))"

section \<open>The classification service and its retry policy\<close>

text \<open>
  What one attempt of \<^verbatim>\<open>call_openai_api\<close> meets: the client call raises some
  exception (a subclass of \<^verbatim>\<open>Exception\<close>, of any kind), or it returns a body that
  \<^verbatim>\<open>json.loads\<close> rejects, or a body that parses.
\<close>

datatype attempt = CreateRaises py_exc | ContentNotJSON | ContentJSON pyval

record csv_file =
  fieldnames :: "string list"
  rows :: "comment list"

text \<open>
  The collaborators of the handler. The answer of the service may depend on the prompt and
  on how many calls were made before; \<^verbatim>\<open>textwrap.dedent\<close> of the prompt is part of
  that function. \<open>s3_get_object\<close> yields the rows that \<^verbatim>\<open>csv.DictReader\<close> reads from
  the object, \<open>None\<close> when anything on the way raises; \<open>s3_put_object\<close> is \<open>False\<close>
  when the upload raises. \<open>int_of_str\<close> is \<^verbatim>\<open>int\<close> on a \<^verbatim>\<open>str\<close>, \<open>None\<close> where it
  raises \<^verbatim>\<open>ValueError\<close>. The waiting time between attempts and the elapsed time of
  the response are left out.
\<close>

record world =
  chat_completions_create :: "nat \<Rightarrow> fstring \<Rightarrow> attempt"
  s3_get_object :: "fstring \<Rightarrow> comment list option"
  s3_put_object :: "fstring \<Rightarrow> csv_file \<Rightarrow> bool"
  S3_BUCKET :: string
  int_of_str :: "string \<Rightarrow> int option"

text \<open>The body of \<^verbatim>\<open>call_openai_api\<close>: either exception is logged and raised again.
  The list \<open>calls\<close> holds the prompt of every call made so far.\<close>

fun attempt_outcome :: "attempt \<Rightarrow> py_exc + pyval" where
  "attempt_outcome (CreateRaises e) = Inl e"
| "attempt_outcome ContentNotJSON = Inl (Exc JSONDecodeError None)"
| "attempt_outcome (ContentJSON v) = Inr v"

definition call_openai_api_body ::
  "world \<Rightarrow> fstring \<Rightarrow> fstring list \<Rightarrow> (py_exc + pyval) \<times> fstring list" where
  "call_openai_api_body w prompt calls =
     (attempt_outcome (chat_completions_create w (length calls) prompt), calls @ [prompt])"

text \<open>
  \<^verbatim>\<open>@retry(stop=stop_after_attempt(3), wait=..., retry=retry_if_exception_type(Exception))\<close>:
  an attempt that raises is repeated until the attempt number reaches 3; then tenacity
  raises \<^verbatim>\<open>RetryError\<close>, which wraps the last attempt (\<^verbatim>\<open>reraise\<close> is not set).
\<close>

function retrying ::
  "world \<Rightarrow> fstring \<Rightarrow> nat \<Rightarrow> fstring list \<Rightarrow> (py_exc + pyval) \<times> fstring list" where
  "retrying w prompt attempt_number calls =
     (case call_openai_api_body w prompt calls of
        (Inr v, calls') \<Rightarrow> (Inr v, calls')
      | (Inl e, calls') \<Rightarrow>
          if 3 \<le> attempt_number then (Inl (Exc RetryError (Some e)), calls')
          else retrying w prompt (Suc attempt_number) calls')"
  by pat_completeness auto
termination
  by (relation "measure (\<lambda>(w, prompt, attempt_number, calls). 3 - attempt_number)") auto

declare retrying.simps [simp del]

definition call_openai_api ::
  "world \<Rightarrow> fstring \<Rightarrow> fstring list \<Rightarrow> (py_exc + pyval) \<times> fstring list" where
  "call_openai_api w prompt calls = retrying w prompt 1 calls"

section \<open>Prompt\<close>

definition classification_prompt_template :: string where
  "classification_prompt_template =
   ''\<newline>'' @
   ''    Classify the following YouTube comments (given in the format `comment_id:comment`) into the specified categories with detailed output for each dimension:\<newline>'' @
   ''    1. **Sentiment**: Assign one of the following emotions: JOY, ANGER, SADNESS, SURPRISE, FEAR, DISGUST.\<newline>'' @
   ''    2. **PositiveStatus**: Determine the overall sentiment as POSITIVE, NEGATIVE, or NEUTRAL.\<newline>'' @
   ''    3. **CommentCategory**: Classify the comment into one of these categories: REACTION, FEEDBACK, QUESTION, SPAM, INSULT.\<newline>'' @
   ''\<newline>'' @
   ''    Additionally:\<newline>'' @
   ''    - Focus on retaining the exact characters in `comment_id` without any changes or omissions.\<newline>'' @
   ''    - Ensure differentiation between IDs with similar but distinct strings, as shown in the input example above.\<newline>'' @
   ''    - Extract exactly 3 keywords that best represent the comment'' @ [CHR 0x27] @ ''s content, excluding meaningless symbols, common stopwords, and adjectives. Keywords should be nouns or verbs.\<newline>'' @
   ''\<newline>'' @
   ''    **Comments:**\<newline>'' @
   ''    ''"

text \<open>The template of \<^verbatim>\<open>classifyComments.py\<close> differs in its last lines.\<close>

definition classification_prompt_v1 :: string where
  "classification_prompt_v1 =
   ''\<newline>'' @
   ''    Classify the following YouTube comments (given in the format `comment_id:comment`) into the specified categories with detailed output for each dimension:\<newline>'' @
   ''    1. **Sentiment**: Assign one of the following emotions: JOY, ANGER, SADNESS, SURPRISE, FEAR, DISGUST.\<newline>'' @
   ''    2. **PositiveStatus**: Determine the overall sentiment as POSITIVE, NEGATIVE, or NEUTRAL.\<newline>'' @
   ''    3. **CommentCategory**: Classify the comment into one of these categories: REACTION, FEEDBACK, QUESTION, SPAM, INSULT.\<newline>'' @
   ''\<newline>'' @
   ''    Additionally:\<newline>'' @
   ''    - Focus on retaining the exact characters in `comment_id` without any changes or omissions.\<newline>'' @
   ''    - Ensure differentiation between IDs with similar but distinct strings, as shown in the input example above.\<newline>'' @
   ''    - Extract exactly 3 keywords that best represent the comment'' @ [CHR 0x27] @ ''s content, excluding meaningless symbols, common stopwords, and adjectives. Keywords should be nouns or verbs.\<newline>'' @
   ''    \<newline>'' @
   ''    **Comments: **\<newline>'' @
   ''    ''"

text \<open>
  \<^verbatim>\<open>for comment in batch_comments: prompt += f"{comment['comment_id']} : {comment['text_display']},\n"\<close>
  The line ends with \<open>'',\<newline>''\<close> in the upgraded file and with \<open>'',''\<close> in the
  old one. A comment without one of the two keys raises \<^verbatim>\<open>KeyError\<close>.
\<close>

definition comment_line :: "string \<Rightarrow> pyval \<Rightarrow> pyval \<Rightarrow> fstring" where
  "comment_line ending cid txt = [Fmt cid, Lit '' : '', Fmt txt, Lit ending]"

fun add_comments :: "string \<Rightarrow> fstring \<Rightarrow> comment list \<Rightarrow> py_exc + fstring" where
  "add_comments ending prompt [] = Inr prompt"
| "add_comments ending prompt (c # cs) =
     (case getitem c ''comment_id'' of
        Inl e \<Rightarrow> Inl e
      | Inr cid \<Rightarrow>
          (case getitem c ''text_display'' of
             Inl e \<Rightarrow> Inl e
           | Inr txt \<Rightarrow> add_comments ending (prompt @ comment_line ending cid txt) cs))"

section \<open>Reconciling the service's answer with the batch\<close>

definition SENTIMENT_ENUM :: "string list" where
  "SENTIMENT_ENUM = [''JOY'', ''ANGER'', ''SADNESS'', ''SURPRISE'', ''FEAR'', ''DISGUST'']"

definition POSITIVE_STATUS_ENUM :: "string list" where
  "POSITIVE_STATUS_ENUM = [''POSITIVE'', ''NEGATIVE'', ''NEUTRAL'']"

definition COMMENT_CATEGORY_ENUM :: "string list" where
  "COMMENT_CATEGORY_ENUM = [''REACTION'', ''FEEDBACK'', ''QUESTION'', ''SPAM'', ''INSULT'']"

text \<open>\<^verbatim>\<open>v in ENUM\<close> for a list of strings: \<open>v\<close> equals one of them.\<close>

definition py_in :: "pyval \<Rightarrow> string list \<Rightarrow> bool" where
  "py_in v enum = list_ex (\<lambda>s. v = PStr s) enum"

text \<open>\<^verbatim>\<open>classified.get("comments", [])\<close>: only a dict has \<^verbatim>\<open>get\<close>.\<close>

fun classified_get_comments :: "pyval \<Rightarrow> py_exc + pyval" where
  "classified_get_comments (PDict d) = Inr (dict_get d ''comments'' (PList []))"
| "classified_get_comments _ = Inl (Exc AttributeError None)"

text \<open>\<^verbatim>\<open>x[k]\<close> with a string \<open>k\<close>: only a dict can be subscripted so.\<close>

fun py_getitem :: "pyval \<Rightarrow> string \<Rightarrow> py_exc + pyval" where
  "py_getitem (PDict d) k = getitem d k"
| "py_getitem _ k = Inl (Exc TypeError None)"

text \<open>\<^verbatim>\<open>for c in v\<close>: a list gives its elements, a string its characters, a dict its
  keys; nothing else can be iterated.\<close>

fun py_iter :: "pyval \<Rightarrow> py_exc + pyval list" where
  "py_iter (PList xs) = Inr xs"
| "py_iter (PStr s) = Inr (map (\<lambda>ch. PStr [ch]) s)"
| "py_iter (PDict d) = Inr (map (\<lambda>kv. PStr (fst kv)) d)"
| "py_iter _ = Inl (Exc TypeError None)"

text \<open>A dict key is hashed: lists and dicts cannot be, and \<^verbatim>\<open>True\<close> and
  \<^verbatim>\<open>False\<close> are the keys \<open>1\<close> and \<open>0\<close>.\<close>

fun hash_key :: "pyval \<Rightarrow> py_exc + pyval" where
  "hash_key (PList xs) = Inl (Exc TypeError None)"
| "hash_key (PDict d) = Inl (Exc TypeError None)"
| "hash_key (PBool b) = Inr (PInt (if b then 1 else 0))"
| "hash_key v = Inr v"

type_synonym class_dict = "(pyval \<times> (string \<times> pyval) list) list"

text \<open>\<^verbatim>\<open>{c["comment_id"]: c for c in ...}\<close>, and the same loop written out in the old
  file: a later entry of the same id replaces the earlier one.\<close>

fun dict_comprehension :: "class_dict \<Rightarrow> pyval list \<Rightarrow> py_exc + class_dict" where
  "dict_comprehension acc [] = Inr acc"
| "dict_comprehension acc (PDict d # cs) =
     (case getitem d ''comment_id'' of
        Inl e \<Rightarrow> Inl e
      | Inr k \<Rightarrow>
          (case hash_key k of
             Inl e \<Rightarrow> Inl e
           | Inr hk \<Rightarrow> dict_comprehension (AList.update hk d acc) cs))"
| "dict_comprehension acc (c # cs) = Inl (Exc TypeError None)"

definition classification_dict :: "pyval \<Rightarrow> py_exc + class_dict" where
  "classification_dict classified =
     (case classified_get_comments classified of
        Inl e \<Rightarrow> Inl e
      | Inr v \<Rightarrow> (case py_iter v of Inl e \<Rightarrow> Inl e | Inr cs \<Rightarrow> dict_comprehension [] cs))"

text \<open>The old file reads \<^verbatim>\<open>classified["comments"]\<close>.\<close>

definition classification_dict_v1 :: "pyval \<Rightarrow> py_exc + class_dict" where
  "classification_dict_v1 classified =
     (case py_getitem classified ''comments'' of
        Inl e \<Rightarrow> Inl e
      | Inr v \<Rightarrow> (case py_iter v of Inl e \<Rightarrow> Inl e | Inr cs \<Rightarrow> dict_comprehension [] cs))"

text \<open>\<^verbatim>\<open>class_result.get(k, "UNKNOWN") if class_result.get(k) in ENUM else "UNKNOWN"\<close>\<close>

definition validated :: "(string \<times> pyval) list \<Rightarrow> string \<Rightarrow> string list \<Rightarrow> pyval" where
  "validated class_result k enum =
     (if py_in (dict_get class_result k PNone) enum
      then dict_get class_result k (PStr ''UNKNOWN'') else PStr ''UNKNOWN'')"

text \<open>The body of \<^verbatim>\<open>for comment in batch_comments\<close> in the upgraded file. The result
  is the exception, if one was raised, and the comment as it is then.\<close>

definition reconcile_comment :: "class_dict \<Rightarrow> comment \<Rightarrow> py_exc option \<times> comment" where
  "reconcile_comment cd c =
     (case getitem c ''comment_id'' of
        Inl e \<Rightarrow> (Some e, c)
      | Inr cid \<Rightarrow>
          (case hash_key cid of
             Inl e \<Rightarrow> (Some e, c)
           | Inr hk \<Rightarrow>
               let class_result = (case map_of cd hk of None \<Rightarrow> [] | Some d \<Rightarrow> d);
                   c1 = AList.update ''sentiment'' (validated class_result ''sentiment'' SENTIMENT_ENUM) c;
                   c2 = AList.update ''positive_status''
                          (validated class_result ''positive_status'' POSITIVE_STATUS_ENUM) c1;
                   c3 = AList.update ''comment_category''
                          (validated class_result ''comment_category'' COMMENT_CATEGORY_ENUM) c2;
                   c4 = AList.update ''keywords'' (dict_get class_result ''keywords'' (PList [])) c3
               in (None, c4)))"

text \<open>\<^verbatim>\<open>class_result[k] if class_result.get(k) in ENUM else ""\<close> of the old file.\<close>

definition validated_v1 ::
  "(string \<times> pyval) list \<Rightarrow> string \<Rightarrow> string list \<Rightarrow> py_exc + pyval" where
  "validated_v1 class_result k enum =
     (if py_in (dict_get class_result k PNone) enum then getitem class_result k else Inr (PStr []))"

definition reconcile_comment_v1 :: "class_dict \<Rightarrow> comment \<Rightarrow> py_exc option \<times> comment" where
  "reconcile_comment_v1 cd c =
     (case getitem c ''comment_id'' of
        Inl e \<Rightarrow> (Some e, c)
      | Inr cid \<Rightarrow>
          (case hash_key cid of
             Inl e \<Rightarrow> (Some e, c)
           | Inr hk \<Rightarrow>
               let class_result = (case map_of cd hk of None \<Rightarrow> [] | Some d \<Rightarrow> d) in
               (case validated_v1 class_result ''sentiment'' SENTIMENT_ENUM of
                  Inl e \<Rightarrow> (Some e, c)
                | Inr v1 \<Rightarrow>
                    let c1 = AList.update ''sentiment'' v1 c in
                    (case validated_v1 class_result ''positive_status'' POSITIVE_STATUS_ENUM of
                       Inl e \<Rightarrow> (Some e, c1)
                     | Inr v2 \<Rightarrow>
                         let c2 = AList.update ''positive_status'' v2 c1 in
                         (case validated_v1 class_result ''comment_category'' COMMENT_CATEGORY_ENUM of
                            Inl e \<Rightarrow> (Some e, c2)
                          | Inr v3 \<Rightarrow>
                              let c3 = AList.update ''comment_category'' v3 c2;
                                  c4 = AList.update ''keywords''
                                         (dict_get class_result ''keywords'' (PList [])) c3
                              in (None, c4))))))"

text \<open>The loop over the batch stops at the first exception; the comments before it are
  already changed, the others are not.\<close>

fun reconcile ::
  "(comment \<Rightarrow> py_exc option \<times> comment) \<Rightarrow> comment list \<Rightarrow> py_exc option \<times> comment list" where
  "reconcile f [] = (None, [])"
| "reconcile f (c # cs) =
     (case f c of
        (Some e, c') \<Rightarrow> (Some e, c' # cs)
      | (None, c') \<Rightarrow> (case reconcile f cs of (r, cs') \<Rightarrow> (r, c' # cs')))"

text \<open>The \<^verbatim>\<open>except Exception\<close> branch: the defaults of one comment.\<close>

definition set_defaults :: "comment \<Rightarrow> comment" where
  "set_defaults c =
     AList.update ''keywords'' (PList [])
       (AList.update ''comment_category'' (PStr ''UNKNOWN'')
          (AList.update ''positive_status'' (PStr ''UNKNOWN'')
             (AList.update ''sentiment'' (PStr ''UNKNOWN'') c)))"

section \<open>CSV file and upload\<close>

text \<open>\<^verbatim>\<open>csv.DictWriter.writerow\<close> raises \<^verbatim>\<open>ValueError\<close> for a row with a key
  that is not among the field names, which are the keys of the first row. How the rows are
  written as text is left out.\<close>

definition save_comments_to_csv :: "comment list \<Rightarrow> py_exc + csv_file option" where
  "save_comments_to_csv cs =
     (case cs of
        [] \<Rightarrow> Inr None
      | c0 # _ \<Rightarrow>
          let headers = map fst c0 in
          if list_all (\<lambda>row. list_all (\<lambda>k. k \<in> set headers) (map fst row)) cs
          then Inr (Some \<lparr>fieldnames = headers, rows = cs\<rparr>)
          else Inl (Exc ValueError None))"

definition upload_comments_batch_to_s3 :: "world \<Rightarrow> csv_file \<Rightarrow> pyval \<Rightarrow> nat \<Rightarrow> fstring" where
  "upload_comments_batch_to_s3 w file_obj video_id batch_number =
     (let filename = [Lit ''classified/'', Fmt video_id, Lit ''/classified_comments_'', Fmt video_id,
                      Lit ''_batch_'', Fmt (PInt (int batch_number)), Lit ''.csv'']
      in if s3_put_object w filename file_obj
         then [Lit ''s3://'', Lit (S3_BUCKET w), Lit ''/''] @ filename
         else [])"

definition upload_comments_to_s3 :: "world \<Rightarrow> csv_file \<Rightarrow> pyval \<Rightarrow> fstring" where
  "upload_comments_to_s3 w file_obj video_id =
     (let filename = [Lit ''classified/classified_comments_'', Fmt video_id, Lit ''.csv'']
      in if s3_put_object w filename file_obj
         then [Lit ''s3://'', Lit (S3_BUCKET w), Lit ''/''] @ filename
         else [])"

definition fetch_comments_from_s3 :: "world \<Rightarrow> pyval \<Rightarrow> comment list" where
  "fetch_comments_from_s3 w video_id =
     (case s3_get_object w [Lit ''unclassified/comments_'', Fmt video_id, Lit ''.csv''] of
        None \<Rightarrow> []
      | Some cs \<Rightarrow> cs)"

section \<open>\<^verbatim>\<open>classify_and_upload_comments\<close> (upgraded file)\<close>

text \<open>
  The \<^verbatim>\<open>try\<close> block of one batch: the call, the dictionary of the answers, the loop
  over the batch, the CSV file and the upload. It yields the exception that ended it, if
  any, the batch as it is then, the URI to append, if any, and the calls made.
\<close>

definition try_block ::
  "world \<Rightarrow> pyval \<Rightarrow> nat \<Rightarrow> fstring \<Rightarrow> comment list \<Rightarrow> fstring list
     \<Rightarrow> py_exc option \<times> comment list \<times> fstring option \<times> fstring list" where
  "try_block w video_id batch_num prompt batch calls =
     (case call_openai_api w prompt calls of
        (Inl e, calls') \<Rightarrow> (Some e, batch, None, calls')
      | (Inr classified, calls') \<Rightarrow>
          (case classification_dict classified of
             Inl e \<Rightarrow> (Some e, batch, None, calls')
           | Inr cd \<Rightarrow>
               (case reconcile (reconcile_comment cd) batch of
                  (Some e, batch') \<Rightarrow> (Some e, batch', None, calls')
                | (None, batch') \<Rightarrow>
                    (case save_comments_to_csv batch' of
                       Inl e \<Rightarrow> (Some e, batch', None, calls')
                     | Inr None \<Rightarrow> (None, batch', None, calls')
                     | Inr (Some csv_file) \<Rightarrow>
                         let s3_uri = upload_comments_batch_to_s3 w csv_file video_id batch_num
                         in (None, batch', if truthy s3_uri then Some s3_uri else None, calls')))))"

text \<open>
  The state of the run: the comment list, whose dicts the loop changes in place (the rows
  are distinct objects, as the CSV reader makes them), the URIs collected, the calls made
  to the service, and the numbers of the batches whose failure was logged.
\<close>

record run_state =
  comments :: "comment list"
  s3_uris :: "fstring list"
  api_calls :: "fstring list"
  failed_batches :: "nat list"

text \<open>
  The slice \<^verbatim>\<open>comments[i : i + batch_size]\<close> holds the very dicts of the list, so what the
  loop writes into a row of the batch is written into the list at that row's position:
  \<open>store_batch\<close> puts the rows of the batch back at offset \<open>i\<close>. A dict object that stood
  at two positions of the list would change at both; the list of values does not show
  that, so the properties of a whole run that depend on it are stated for lists in which
  no row occurs twice.
\<close>

definition store_batch :: "comment list \<Rightarrow> int \<Rightarrow> comment list \<Rightarrow> comment list" where
  "store_batch cs i batch = take (nat i) cs @ batch @ drop (nat i + length batch) cs"

text \<open>The body of the \<^verbatim>\<open>for\<close> loop. The prompt is built outside the \<^verbatim>\<open>try\<close>
  block, so its \<^verbatim>\<open>KeyError\<close> leaves the function.\<close>

definition batch_step ::
  "world \<Rightarrow> pyval \<Rightarrow> int \<Rightarrow> nat \<Rightarrow> int \<Rightarrow> run_state \<Rightarrow> py_exc + run_state" where
  "batch_step w video_id batch_size batch_num i st =
     (let batch = batch_comments (comments st) batch_size i in
      case add_comments '',\<newline>'' [Lit classification_prompt_template] batch of
        Inl e \<Rightarrow> Inl e
      | Inr prompt \<Rightarrow>
          (case try_block w video_id batch_num prompt batch (api_calls st) of
             (None, batch', uri, calls') \<Rightarrow>
               Inr (st\<lparr>comments := store_batch (comments st) i batch',
                       s3_uris := (case uri of None \<Rightarrow> s3_uris st | Some u \<Rightarrow> s3_uris st @ [u]),
                       api_calls := calls'\<rparr>)
           | (Some e, batch', uri, calls') \<Rightarrow>
               Inr (st\<lparr>comments := store_batch (comments st) i (map set_defaults batch'),
                       api_calls := calls',
                       failed_batches := failed_batches st @ [batch_num]\<rparr>)))"

fun batch_loop ::
  "world \<Rightarrow> pyval \<Rightarrow> int \<Rightarrow> (nat \<times> int) list \<Rightarrow> run_state \<Rightarrow> py_exc + run_state" where
  "batch_loop w video_id batch_size [] st = Inr st"
| "batch_loop w video_id batch_size ((batch_num, i) # rest) st =
     (case batch_step w video_id batch_size batch_num i st of
        Inl e \<Rightarrow> Inl e
      | Inr st' \<Rightarrow> batch_loop w video_id batch_size rest st')"

definition classify_and_upload_comments ::
  "world \<Rightarrow> comment list \<Rightarrow> pyval \<Rightarrow> int \<Rightarrow> fstring list \<Rightarrow> py_exc + run_state" where
  "classify_and_upload_comments w cs video_id batch_size calls =
     (case total_batches cs batch_size of
        Inl e \<Rightarrow> Inl e
      | Inr n \<Rightarrow>
          (case py_range 0 (int (length cs)) batch_size of
             Inl e \<Rightarrow> Inl e
           | Inr offs \<Rightarrow>
               batch_loop w video_id batch_size (enumerate 1 offs)
                 \<lparr>comments = cs, s3_uris = [], api_calls = calls, failed_batches = []\<rparr>))"

section \<open>\<^verbatim>\<open>classify_comments\<close> (old file)\<close>

definition try_block_v1 ::
  "world \<Rightarrow> fstring \<Rightarrow> comment list \<Rightarrow> fstring list
     \<Rightarrow> py_exc option \<times> comment list \<times> fstring list" where
  "try_block_v1 w prompt batch calls =
     (case call_openai_api w prompt calls of
        (Inl e, calls') \<Rightarrow> (Some e, batch, calls')
      | (Inr classified, calls') \<Rightarrow>
          (case classification_dict_v1 classified of
             Inl e \<Rightarrow> (Some e, batch, calls')
           | Inr cd \<Rightarrow>
               (case reconcile (reconcile_comment_v1 cd) batch of
                  (r, batch') \<Rightarrow> (r, batch', calls'))))"

text \<open>Here the prompt is a variable of the whole function: each batch appends to what
  the batches before it left. The offsets of the failed batches stand for the messages
  printed in the \<^verbatim>\<open>except\<close> branch.\<close>

record run_state_v1 =
  comments_v1 :: "comment list"
  classification_prompt :: fstring
  api_calls_v1 :: "fstring list"
  failed_offsets :: "int list"

definition batch_step_v1 :: "world \<Rightarrow> int \<Rightarrow> int \<Rightarrow> run_state_v1 \<Rightarrow> py_exc + run_state_v1" where
  "batch_step_v1 w batch_size i st =
     (let batch = batch_comments (comments_v1 st) batch_size i in
      case add_comments '','' (classification_prompt st) batch of
        Inl e \<Rightarrow> Inl e
      | Inr prompt \<Rightarrow>
          (case try_block_v1 w prompt batch (api_calls_v1 st) of
             (None, batch', calls') \<Rightarrow>
               Inr (st\<lparr>comments_v1 := store_batch (comments_v1 st) i batch',
                       classification_prompt := prompt,
                       api_calls_v1 := calls'\<rparr>)
           | (Some e, batch', calls') \<Rightarrow>
               Inr (st\<lparr>comments_v1 := store_batch (comments_v1 st) i (map set_defaults batch'),
                       classification_prompt := prompt,
                       api_calls_v1 := calls',
                       failed_offsets := failed_offsets st @ [i]\<rparr>)))"

fun batch_loop_v1 :: "world \<Rightarrow> int \<Rightarrow> int list \<Rightarrow> run_state_v1 \<Rightarrow> py_exc + run_state_v1" where
  "batch_loop_v1 w batch_size [] st = Inr st"
| "batch_loop_v1 w batch_size (i # rest) st =
     (case batch_step_v1 w batch_size i st of
        Inl e \<Rightarrow> Inl e
      | Inr st' \<Rightarrow> batch_loop_v1 w batch_size rest st')"

definition classify_comments ::
  "world \<Rightarrow> comment list \<Rightarrow> int \<Rightarrow> fstring list \<Rightarrow> py_exc + run_state_v1" where
  "classify_comments w cs batch_size calls =
     (case py_range 0 (int (length cs)) batch_size of
        Inl e \<Rightarrow> Inl e
      | Inr offs \<Rightarrow>
          batch_loop_v1 w batch_size offs
            \<lparr>comments_v1 = cs, classification_prompt = [Lit classification_prompt_v1],
             api_calls_v1 = calls, failed_offsets = []\<rparr>)"

section \<open>The handlers\<close>

text \<open>The value given to \<^verbatim>\<open>json.dumps\<close> for the body: a message, or the result with
  its URIs (the fixed message and the elapsed time of the result are left out).\<close>

datatype body = Message fstring | Uploaded "fstring list" | Uploaded_v1 fstring

record response =
  statusCode :: int
  body :: body

text \<open>\<^verbatim>\<open>int(v)\<close>: \<^verbatim>\<open>ValueError\<close> for a string that is no number,
  \<^verbatim>\<open>TypeError\<close> for \<^verbatim>\<open>None\<close>, a list or a dict.\<close>

definition py_int :: "world \<Rightarrow> pyval \<Rightarrow> py_exc + int" where
  "py_int w v =
     (case v of
        PInt i \<Rightarrow> Inr i
      | PBool b \<Rightarrow> Inr (if b then 1 else 0)
      | PStr s \<Rightarrow> (case int_of_str w s of None \<Rightarrow> Inl (Exc ValueError None) | Some i \<Rightarrow> Inr i)
      | _ \<Rightarrow> Inl (Exc TypeError None))"

definition missing_parameter :: response where
  "missing_parameter =
     \<lparr>statusCode = 400, body = Message [Lit ''Missing parameter: '', Lit ([CHR 0x27] @ ''video_id'' @ [CHR 0x27])]\<rparr>"

definition invalid_batch_size :: response where
  "invalid_batch_size = \<lparr>statusCode = 400, body = Message [Lit ''Invalid batch_size parameter.'']\<rparr>"

definition not_found :: "pyval \<Rightarrow> response" where
  "not_found video_id =
     \<lparr>statusCode = 404,
      body = Message [Lit (''Video with ID '' @ [CHR 0x27]), Fmt video_id,
                      Lit ([CHR 0x27] @ '' not found or no comments available.'')]\<rparr>"

text \<open>\<^verbatim>\<open>lambda_handler\<close> of the upgraded file. Only \<^verbatim>\<open>KeyError\<close> and
  \<^verbatim>\<open>ValueError\<close> are caught around the parameters; nothing is caught around the
  classification.\<close>

definition lambda_handler :: "world \<Rightarrow> (string \<times> pyval) list \<Rightarrow> py_exc + response" where
  "lambda_handler w event =
     (case getitem event ''video_id'' of
        Inl e \<Rightarrow> Inr missing_parameter
      | Inr video_id \<Rightarrow>
          (case py_int w (dict_get event ''batch_size'' (PInt 20)) of
             Inl e \<Rightarrow> if exc_class e = ValueError then Inr invalid_batch_size else Inl e
           | Inr batch_size \<Rightarrow>
               let cs = fetch_comments_from_s3 w video_id in
               if cs = [] then Inr (not_found video_id)
               else
                 (case classify_and_upload_comments w cs video_id batch_size [] of
                    Inl e \<Rightarrow> Inl e
                  | Inr st \<Rightarrow>
                      if s3_uris st = []
                      then Inr \<lparr>statusCode = 500,
                                body = Message [Lit ''Failed to classify and upload comments.'']\<rparr>
                      else Inr \<lparr>statusCode = 200, body = Uploaded (s3_uris st)\<rparr>)))"

text \<open>\<^verbatim>\<open>lambda_handler\<close> of the old file: one CSV file for the whole list.\<close>

definition lambda_handler_v1 :: "world \<Rightarrow> (string \<times> pyval) list \<Rightarrow> py_exc + response" where
  "lambda_handler_v1 w event =
     (case getitem event ''video_id'' of
        Inl e \<Rightarrow> Inr missing_parameter
      | Inr video_id \<Rightarrow>
          (case py_int w (dict_get event ''batch_size'' (PInt 20)) of
             Inl e \<Rightarrow> if exc_class e = ValueError then Inr invalid_batch_size else Inl e
           | Inr batch_size \<Rightarrow>
               let cs = fetch_comments_from_s3 w video_id in
               if cs = [] then Inr (not_found video_id)
               else
                 (case classify_comments w cs batch_size [] of
                    Inl e \<Rightarrow> Inl e
                  | Inr st \<Rightarrow>
                      (case save_comments_to_csv (comments_v1 st) of
                         Inl e \<Rightarrow> Inl e
                       | Inr None \<Rightarrow>
                           Inr \<lparr>statusCode = 500,
                                body = Message [Lit ''Failed to save comments to CSV.'']\<rparr>
                       | Inr (Some csv_file) \<Rightarrow>
                           let s3_uri = upload_comments_to_s3 w csv_file video_id in
                           if \<not> truthy s3_uri
                           then Inr \<lparr>statusCode = 500,
                                     body = Message [Lit ''Failed to upload CSV to S3.'']\<rparr>
                           else Inr \<lparr>statusCode = 200, body = Uploaded_v1 s3_uri\<rparr>))))"

section \<open>Vocabulary of the properties\<close>

definition classification_fields :: "string list" where
  "classification_fields = [''sentiment'', ''positive_status'', ''comment_category'', ''keywords'']"

text \<open>A comment record without its classification fields.\<close>

definition other_fields :: "comment \<Rightarrow> comment" where
  "other_fields c = filter (\<lambda>kv. fst kv \<notin> set classification_fields) c"

text \<open>The two columns that the prompt reads.\<close>

definition has_prompt_keys :: "comment \<Rightarrow> bool" where
  "has_prompt_keys c = (map_of c ''comment_id'' \<noteq> None \<and> map_of c ''text_display'' \<noteq> None)"

text \<open>A categorical field holds a value of its enumeration or the sentinel.\<close>

definition enum_or_unknown :: "comment \<Rightarrow> string \<Rightarrow> string list \<Rightarrow> bool" where
  "enum_or_unknown c k enum =
     (case map_of c k of None \<Rightarrow> False | Some v \<Rightarrow> py_in v (''UNKNOWN'' # enum))"

definition reconciled :: "comment \<Rightarrow> bool" where
  "reconciled c =
     (enum_or_unknown c ''sentiment'' SENTIMENT_ENUM
      \<and> enum_or_unknown c ''positive_status'' POSITIVE_STATUS_ENUM
      \<and> enum_or_unknown c ''comment_category'' COMMENT_CATEGORY_ENUM
      \<and> map_of c ''keywords'' \<noteq> None)"

text \<open>All four fields hold the defaults of the \<^verbatim>\<open>except\<close> branch.\<close>

definition all_unknown :: "comment \<Rightarrow> bool" where
  "all_unknown c =
     (map_of c ''sentiment'' = Some (PStr ''UNKNOWN'')
      \<and> map_of c ''positive_status'' = Some (PStr ''UNKNOWN'')
      \<and> map_of c ''comment_category'' = Some (PStr ''UNKNOWN'')
      \<and> map_of c ''keywords'' = Some (PList []))"

text \<open>The outcome of attempt \<open>j\<close> (counted from 0) of a call that starts after \<open>calls\<close>.\<close>

definition attempt_at :: "world \<Rightarrow> fstring \<Rightarrow> fstring list \<Rightarrow> nat \<Rightarrow> py_exc + pyval" where
  "attempt_at w prompt calls j =
     attempt_outcome (chat_completions_create w (length calls + j) prompt)"

text \<open>The lines that the prompt holds for a list of comments, each
  \<open>comment_id : text_display\<close> and the ending.\<close>

definition prompt_lines :: "string \<Rightarrow> comment list \<Rightarrow> fstring" where
  "prompt_lines ending cs =
     concat (map (\<lambda>c. comment_line ending (dict_get c ''comment_id'' PNone)
                                      (dict_get c ''text_display'' PNone)) cs)"

text \<open>The service raises on a prompt at every attempt, whenever it is called.\<close>

definition always_raises :: "world \<Rightarrow> fstring \<Rightarrow> bool" where
  "always_raises w prompt =
     (\<forall>n. \<exists>e. attempt_outcome (chat_completions_create w n prompt) = Inl e)"

text \<open>The prompt of a batch in the upgraded file: the template and the lines of the
  batch.\<close>

definition batch_prompt :: "comment list \<Rightarrow> fstring" where
  "batch_prompt batch = [Lit classification_prompt_template] @ prompt_lines '',\<newline>'' batch"

text \<open>In the old file a categorical field may also hold the empty string.\<close>

definition enum_or_blank :: "comment \<Rightarrow> string \<Rightarrow> string list \<Rightarrow> bool" where
  "enum_or_blank c k enum =
     (case map_of c k of None \<Rightarrow> False | Some v \<Rightarrow> py_in v ([] # ''UNKNOWN'' # enum))"

definition reconciled_v1 :: "comment \<Rightarrow> bool" where
  "reconciled_v1 c =
     (enum_or_blank c ''sentiment'' SENTIMENT_ENUM
      \<and> enum_or_blank c ''positive_status'' POSITIVE_STATUS_ENUM
      \<and> enum_or_blank c ''comment_category'' COMMENT_CATEGORY_ENUM
      \<and> map_of c ''keywords'' \<noteq> None)"

text \<open>The prompt that the old file sends for the batch at offset \<open>j\<close>: the template and
  the lines of every comment up to the end of that batch.\<close>

definition batch_prompt_v1 :: "comment list \<Rightarrow> int \<Rightarrow> int \<Rightarrow> fstring" where
  "batch_prompt_v1 cs batch_size j =
     [Lit classification_prompt_v1] @ prompt_lines '','' (take (nat (j + batch_size)) cs)"

text \<open>The service treats a prompt the same way whenever it is called with it.\<close>

definition steady :: "world \<Rightarrow> fstring \<Rightarrow> bool" where
  "steady w prompt = (\<forall>n. chat_completions_create w n prompt = chat_completions_create w 0 prompt)"

text \<open>What one pass of the loop body of the upgraded file does with a batch, read off the
  \<^verbatim>\<open>try\<close> block: the batch it leaves, the URI it appends and the failure it records.\<close>

definition step_effect ::
  "world \<Rightarrow> pyval \<Rightarrow> nat \<Rightarrow> comment list \<Rightarrow> fstring list
     \<Rightarrow> comment list \<times> fstring list \<times> nat list" where
  "step_effect w video_id batch_num batch calls =
     (case try_block w video_id batch_num (batch_prompt batch) batch calls of
        (None, batch', uri, calls') \<Rightarrow> (batch', (case uri of None \<Rightarrow> [] | Some u \<Rightarrow> [u]), [])
      | (Some e, batch', uri, calls') \<Rightarrow> (map set_defaults batch', [], [batch_num]))"

text \<open>The same for the old file, whose prompt is given: the batch it leaves and whether the
  failure is recorded.\<close>

definition step_effect_v1 ::
  "world \<Rightarrow> fstring \<Rightarrow> comment list \<Rightarrow> fstring list \<Rightarrow> comment list \<times> bool" where
  "step_effect_v1 w prompt batch calls =
     (case try_block_v1 w prompt batch calls of
        (None, batch', calls') \<Rightarrow> (batch', False)
      | (Some e, batch', calls') \<Rightarrow> (map set_defaults batch', True))"

section \<open>Example inputs\<close>

text \<open>A world around a given service: no stored input, every upload succeeds.\<close>

definition world_of :: "(nat \<Rightarrow> fstring \<Rightarrow> attempt) \<Rightarrow> world" where
  "world_of service =
     \<lparr>chat_completions_create = service, s3_get_object = (\<lambda>key. None),
      s3_put_object = (\<lambda>key file_obj. True), S3_BUCKET = ''bucket'',
      int_of_str = (\<lambda>s. None)\<rparr>"

text \<open>A service that raises on its first two calls and answers from the third on, and
  one that raises on every call.\<close>

definition flaky_service :: "nat \<Rightarrow> fstring \<Rightarrow> attempt" where
  "flaky_service n prompt =
     (if n < 2 then CreateRaises (Exc APIError None) else ContentJSON (PDict [(''comments'', PList [])]))"

definition down_service :: "nat \<Rightarrow> fstring \<Rightarrow> attempt" where
  "down_service n prompt = CreateRaises (Exc APIError None)"

text \<open>A service that answers every call with an empty list of results.\<close>

definition empty_answer_service :: "nat \<Rightarrow> fstring \<Rightarrow> attempt" where
  "empty_answer_service n prompt = ContentJSON (PDict [(''comments'', PList [])])"

text \<open>Two comment rows.\<close>

definition comment_a :: comment where
  "comment_a = [(''comment_id'', PStr ''a''), (''text_display'', PStr ''hello'')]"

definition comment_b :: comment where
  "comment_b = [(''comment_id'', PStr ''b''), (''text_display'', PStr ''bye'')]"

text \<open>A service whose body never parses as JSON.\<close>

definition garbled_service :: "nat \<Rightarrow> fstring \<Rightarrow> attempt" where
  "garbled_service n prompt = ContentNotJSON"

text \<open>A world with the two comment rows stored for every video, a service that answers
  without results, and uploads that succeed or fail as \<open>put_ok\<close> says.\<close>

definition stored_world :: "bool \<Rightarrow> world" where
  "stored_world put_ok =
     \<lparr>chat_completions_create = empty_answer_service,
      s3_get_object = (\<lambda>key. Some [comment_a, comment_b]),
      s3_put_object = (\<lambda>key file_obj. put_ok), S3_BUCKET = ''bucket'',
      int_of_str = (\<lambda>s. None)\<rparr>"

text \<open>An event with the given batch size.\<close>

definition event_with :: "int \<Rightarrow> (string \<times> pyval) list" where
  "event_with n = [(''video_id'', PStr ''v''), (''batch_size'', PInt n)]"

text \<open>A service that raises on every prompt without the second comment and answers every
  prompt that holds it, with a result for that comment.\<close>

definition answer_b :: pyval where
  "answer_b =
     PDict [(''comments'',
       PList [PDict [(''comment_id'', PStr ''b''), (''comment'', PStr ''bye''),
                     (''sentiment'', PStr ''JOY''), (''positive_status'', PStr ''POSITIVE''),
                     (''comment_category'', PStr ''REACTION''),
                     (''keywords'', PList [PStr ''bye''])]])]"

definition selective_service :: "nat \<Rightarrow> fstring \<Rightarrow> attempt" where
  "selective_service n prompt =
     (if Fmt (PStr ''b'') \<in> set prompt then ContentJSON answer_b
      else CreateRaises (Exc APIError None))"

section \<open>Partition lemmas\<close>

lemma batch_comments_take_drop:
  assumes "0 < B" "0 \<le> i"
  shows "batch_comments xs B i = take (nat B) (drop (nat i) xs)"
proof (cases "i \<le> int (length xs)")
  case True
  with assms have "take (nat (min (i + B) (int (length xs)) - i)) (drop (nat i) xs)
      = take (nat B) (drop (nat i) xs)"
    by (cases "i + B \<le> int (length xs)") (simp_all add: min_def)
  with assms True show ?thesis
    by (simp add: batch_comments_def py_slice_def clamp_index_def Let_def min_def)
next
  case False
  with assms show ?thesis
    by (simp add: batch_comments_def py_slice_def clamp_index_def Let_def min_def)
qed

lemma concat_batches_from:
  assumes "0 < B" "0 \<le> i"
  shows "concat (map (batch_comments xs B) (range_list i (int (length xs)) B)) = drop (nat i) xs"
  using assms
proof (induction i "int (length xs)" B rule: range_list.induct)
  case (1 i step)
  show ?case
  proof (cases "i < int (length xs)")
    case True
    with 1 have IH: "concat (map (batch_comments xs step) (range_list (i + step) (int (length xs)) step))
        = drop (nat (i + step)) xs"
      by simp
    have "nat (i + step) = nat step + nat i"
      using 1 by (simp add: nat_add_distrib)
    then have "take (nat step) (drop (nat i) xs) @ drop (nat (i + step)) xs = drop (nat i) xs"
      by (metis append_take_drop_id drop_drop)
    with True 1 IH show ?thesis
      by (subst range_list.simps) (simp add: batch_comments_take_drop)
  next
    case False
    with 1 show ?thesis
      by (subst range_list.simps) simp
  qed
qed

lemma range_list_unfold:
  "0 < B \<Longrightarrow> i < N \<Longrightarrow> range_list i N B = i # range_list (i + B) N B"
  by (subst range_list.simps) simp

lemma range_list_empty:
  "0 < B \<Longrightarrow> \<not> i < N \<Longrightarrow> range_list i N B = []"
  by (subst range_list.simps) simp

lemma range_list_nth:
  assumes "0 < B" "k < length (range_list i N B)"
  shows "range_list i N B ! k = i + int k * B \<and> i + int k * B < N"
  using assms
proof (induction i N B arbitrary: k rule: range_list.induct)
  case (1 i stop step)
  have lt: "i < stop"
  proof (rule ccontr)
    assume "\<not> i < stop"
    with 1(2) have "range_list i stop step = []" by (rule range_list_empty)
    with 1(3) show False by simp
  qed
  have unf: "range_list i stop step = i # range_list (i + step) stop step"
    using 1(2) lt by (rule range_list_unfold)
  show ?case
  proof (cases k)
    case 0
    with unf lt show ?thesis by simp
  next
    case (Suc k')
    with 1(3) unf have "k' < length (range_list (i + step) stop step)" by simp
    with 1(1)[of k'] 1(2) lt have "range_list (i + step) stop step ! k' = i + step + int k' * step
      \<and> i + step + int k' * step < stop" by simp
    with Suc unf show ?thesis by (simp add: algebra_simps)
  qed
qed

lemma range_list_length:
  assumes "0 < B" 
  shows "int (length (range_list i N B)) = (if i < N then (N - i + B - 1) div B else 0)"
  using assms
proof (induction i N B rule: range_list.induct)
  case (1 i stop step)
  show ?case
  proof (cases "i < stop")
    case True
    have unf: "range_list i stop step = i # range_list (i + step) stop step"
      using 1(2) True by (rule range_list_unfold)
    from 1 True have IH: "int (length (range_list (i + step) stop step)) =
       (if i + step < stop then (stop - (i + step) + step - 1) div step else 0)" by simp
    have "stop - i + step - 1 = (stop - i - 1) + step" by simp
    then have d: "(stop - i + step - 1) div step = (stop - i - 1) div step + 1"
      using 1(2) by (simp only: div_add_self2)
    show ?thesis
    proof (cases "i + step < stop")
      case T2: True
      with True IH unf d show ?thesis by simp
    next
      case F2: False
      with True have "(stop - i - 1) div step = 0"
        by (intro div_pos_pos_trivial) auto
      with F2 True IH unf d show ?thesis by simp
    qed
  next
    case False
    then show ?thesis using 1(2) by (simp add: range_list_empty)
  qed
qed

lemma ceil_div:
  assumes "0 < (B::int)"
  shows "(N + B - 1) div B = \<lceil>real_of_int N / real_of_int B\<rceil>"
proof -
  define z where "z = (N + B - 1) div B"
  have m: "N + B - 1 = z * B + (N + B - 1) mod B" unfolding z_def by simp
  have r: "0 \<le> (N + B - 1) mod B" "(N + B - 1) mod B < B" using assms by simp_all
  from m r have lo: "(z - 1) * B < N" and hi: "N \<le> z * B"
    by (simp_all add: algebra_simps)
  have Bpos: "0 < real_of_int B" using assms by simp
  have "real_of_int ((z - 1) * B) < real_of_int N" using lo by (simp only: of_int_less_iff)
  then have "(real_of_int z - 1) * real_of_int B < real_of_int N" by simp
  then have 1: "real_of_int z - 1 < real_of_int N / real_of_int B"
    using Bpos by (simp only: pos_less_divide_eq)
  have "real_of_int N \<le> real_of_int (z * B)" using hi by (simp only: of_int_le_iff)
  then have "real_of_int N \<le> real_of_int z * real_of_int B" by simp
  then have 2: "real_of_int N / real_of_int B \<le> real_of_int z"
    using Bpos by (simp only: pos_divide_le_eq)
  from 1 2 have "\<lceil>real_of_int N / real_of_int B\<rceil> = z" by (rule ceiling_unique)
  then show ?thesis by (simp add: z_def)
qed

section \<open>Retry lemmas\<close>

lemma retrying_success:
  "attempt_outcome (chat_completions_create w (length calls) prompt) = Inr v
   \<Longrightarrow> retrying w prompt k calls = (Inr v, calls @ [prompt])"
  by (subst retrying.simps) (simp add: call_openai_api_body_def)

lemma retrying_again:
  "attempt_outcome (chat_completions_create w (length calls) prompt) = Inl e \<Longrightarrow> k < 3
   \<Longrightarrow> retrying w prompt k calls = retrying w prompt (Suc k) (calls @ [prompt])"
  by (subst retrying.simps) (simp add: call_openai_api_body_def)

lemma retrying_stop:
  "attempt_outcome (chat_completions_create w (length calls) prompt) = Inl e \<Longrightarrow> 3 \<le> k
   \<Longrightarrow> retrying w prompt k calls = (Inl (Exc RetryError (Some e)), calls @ [prompt])"
  by (subst retrying.simps) (simp add: call_openai_api_body_def)

lemma call_openai_api_cases:
  fixes w prompt calls
  defines "a \<equiv> \<lambda>j. attempt_outcome (chat_completions_create w (length calls + j) prompt)"
  shows "call_openai_api w prompt calls =
     (case a 0 of
        Inr v \<Rightarrow> (Inr v, calls @ [prompt])
      | Inl e1 \<Rightarrow>
          (case a 1 of
             Inr v \<Rightarrow> (Inr v, calls @ [prompt, prompt])
           | Inl e2 \<Rightarrow>
               (case a 2 of
                  Inr v \<Rightarrow> (Inr v, calls @ [prompt, prompt, prompt])
                | Inl e3 \<Rightarrow> (Inl (Exc RetryError (Some e3)), calls @ [prompt, prompt, prompt]))))"
proof (cases "a 0")
  case (Inr v)
  then show ?thesis
    using retrying_success[of w calls prompt v 1] by (simp add: a_def call_openai_api_def)
next
  case e1: (Inl e1)
  then have s1: "call_openai_api w prompt calls = retrying w prompt 2 (calls @ [prompt])"
    using retrying_again[of w calls prompt e1 1]
    by (simp add: a_def call_openai_api_def numeral_2_eq_2)
  show ?thesis
  proof (cases "a 1")
    case (Inr v)
    then show ?thesis
      using e1 s1 retrying_success[of w "calls @ [prompt]" prompt v 2] by (simp add: a_def)
  next
    case e2: (Inl e2)
    then have s2: "call_openai_api w prompt calls = retrying w prompt 3 (calls @ [prompt, prompt])"
      using s1 retrying_again[of w "calls @ [prompt]" prompt e2 2]
      by (simp add: a_def numeral_3_eq_3 numeral_2_eq_2)
    show ?thesis
    proof (cases "a 2")
      case (Inr v)
      then show ?thesis
        using e1 e2 s2 retrying_success[of w "calls @ [prompt, prompt]" prompt v 3]
        by (simp add: a_def)
    next
      case (Inl e3)
      then show ?thesis
        using e1 e2 s2 retrying_stop[of w "calls @ [prompt, prompt]" prompt e3 3]
        by (simp add: a_def)
    qed
  qed
qed

section \<open>Reconciliation lemmas\<close>

lemma other_fields_update:
  "k \<in> set classification_fields \<Longrightarrow> other_fields (AList.update k v c) = other_fields c"
  by (induction c) (auto simp: other_fields_def)

lemma map_of_other_fields:
  "k \<notin> set classification_fields \<Longrightarrow> map_of (other_fields c) k = map_of c k"
  by (induction c) (auto simp: other_fields_def)

lemma other_fields_set_defaults: "other_fields (set_defaults c) = other_fields c"
  by (simp add: set_defaults_def other_fields_update classification_fields_def)

lemma all_unknown_set_defaults: "all_unknown (set_defaults c)"
  by (simp add: all_unknown_def set_defaults_def update_conv')

lemma py_in_Cons: "py_in v (s # enum) = (v = PStr s \<or> py_in v enum)"
  by (simp add: py_in_def)

lemma all_unknown_reconciled: "all_unknown c \<Longrightarrow> reconciled c"
  by (simp add: all_unknown_def reconciled_def enum_or_unknown_def py_in_Cons)

lemma validated_in: "py_in (validated d k enum) (''UNKNOWN'' # enum)"
  by (auto simp: validated_def py_in_Cons dict_get_def split: option.splits)

lemma reconcile_comment_other_fields:
  "reconcile_comment cd c = (r, c') \<Longrightarrow> other_fields c' = other_fields c"
  by (auto simp: reconcile_comment_def Let_def other_fields_update classification_fields_def
      split: sum.splits)

lemma reconcile_comment_reconciled:
  "reconcile_comment cd c = (None, c') \<Longrightarrow> reconciled c'"
  by (auto simp: reconcile_comment_def Let_def reconciled_def enum_or_unknown_def update_conv'
      validated_in dict_get_def split: sum.splits option.splits)

lemma validated_v1_cases:
  "validated_v1 d k enum = (if py_in (dict_get d k PNone) enum then Inr (dict_get d k PNone) else Inr (PStr []))"
  by (auto simp: validated_v1_def getitem_def dict_get_def py_in_def list_ex_iff split: option.splits)

lemma reconcile_comment_v1_other_fields:
  "reconcile_comment_v1 cd c = (r, c') \<Longrightarrow> other_fields c' = other_fields c"
  by (auto simp: reconcile_comment_v1_def Let_def other_fields_update classification_fields_def
      validated_v1_cases split: sum.splits if_splits)

lemma reconcile_other_fields:
  assumes "\<And>c r c'. f c = (r, c') \<Longrightarrow> other_fields c' = other_fields c"
  shows "reconcile f cs = (r, cs') \<Longrightarrow> map other_fields cs' = map other_fields cs"
proof (induction cs arbitrary: r cs')
  case Nil
  then show ?case by simp
next
  case (Cons c cs)
  obtain r1 c1 where f: "f c = (r1, c1)" by (cases "f c")
  show ?case
  proof (cases r1)
    case None
    obtain r2 cs2 where rec: "reconcile f cs = (r2, cs2)" by (cases "reconcile f cs")
    with Cons.prems f None have "cs' = c1 # cs2" by simp
    with Cons.IH[OF rec] assms[OF f] show ?thesis by simp
  next
    case (Some e)
    with Cons.prems f have "cs' = c1 # cs" by simp
    with assms[OF f] show ?thesis by simp
  qed
qed

lemma reconcile_all:
  assumes "\<And>c c'. f c = (None, c') \<Longrightarrow> P c'"
  shows "reconcile f cs = (None, cs') \<Longrightarrow> \<forall>c\<in>set cs'. P c"
proof (induction cs arbitrary: cs')
  case Nil
  then show ?case by simp
next
  case (Cons c cs)
  obtain r1 c1 where f: "f c = (r1, c1)" by (cases "f c")
  obtain r2 cs2 where rec: "reconcile f cs = (r2, cs2)" by (cases "reconcile f cs")
  from Cons.prems f rec have "r1 = None" "r2 = None" "cs' = c1 # cs2"
    by (auto split: option.splits)
  with Cons.IH[of cs2] rec assms[of c c1] f show ?case by simp
qed

section \<open>Lemmas about one batch\<close>

lemma add_comments_eq:
  "add_comments ending prompt cs =
     (if \<forall>c\<in>set cs. has_prompt_keys c then Inr (prompt @ prompt_lines ending cs)
      else Inl (Exc KeyError None))"
proof (induction cs arbitrary: prompt)
  case Nil
  then show ?case by (simp add: prompt_lines_def)
next
  case (Cons c cs)
  show ?case
  proof (cases "has_prompt_keys c")
    case True
    then obtain cid tx where k: "map_of c ''comment_id'' = Some cid" "map_of c ''text_display'' = Some tx"
      by (auto simp: has_prompt_keys_def)
    then show ?thesis using True Cons.IH
      by (simp add: getitem_def dict_get_def prompt_lines_def)
  next
    case False
    then show ?thesis
      by (auto simp: getitem_def has_prompt_keys_def split: option.splits)
  qed
qed

lemma always_raises_call:
  assumes "always_raises w p"
  shows "\<exists>e. call_openai_api w p calls = (Inl e, calls @ [p, p, p])"
proof -
  from assms obtain e1 e2 e3 where
    "attempt_outcome (chat_completions_create w (length calls + 0) p) = Inl e1"
    "attempt_outcome (chat_completions_create w (length calls + 1) p) = Inl e2"
    "attempt_outcome (chat_completions_create w (length calls + 2) p) = Inl e3"
    unfolding always_raises_def by metis
  then show ?thesis
    using call_openai_api_cases[of w p calls] by simp
qed

lemma try_block_other_fields:
  assumes "try_block w vid num p batch calls = (exc, batch', uri, calls')"
  shows "map other_fields batch' = map other_fields batch"
  using assms reconcile_other_fields[of "reconcile_comment cd" for cd, OF reconcile_comment_other_fields]
  unfolding try_block_def
  by (auto simp: Let_def split: prod.splits sum.splits option.splits)

lemma try_block_reconciled:
  assumes "try_block w vid num p batch calls = (None, batch', uri, calls')"
  shows "\<forall>c\<in>set batch'. reconciled c"
  using assms reconcile_all[of "reconcile_comment cd" reconciled for cd, OF reconcile_comment_reconciled]
  unfolding try_block_def
  by (auto simp: Let_def split: prod.splits sum.splits option.splits)

lemma try_block_call_fails:
  assumes "call_openai_api w p calls = (Inl e, calls1)"
  shows "try_block w vid num p batch calls = (Some e, batch, None, calls1)"
  using assms by (simp add: try_block_def)

lemma split_at_batch:
  "cs = take n cs @ take m (drop n cs) @ drop (n + length (take m (drop n cs))) cs"
proof -
  have "drop n cs = take m (drop n cs) @ drop m (drop n cs)"
    by (rule append_take_drop_id[symmetric])
  moreover have "drop m (drop n cs) = drop (n + length (take m (drop n cs))) cs"
    by (cases "m \<le> length cs - n") (simp_all add: min_def add.commute)
  ultimately have "drop n cs = take m (drop n cs) @ drop (n + length (take m (drop n cs))) cs"
    by simp
  then show ?thesis by (metis append_take_drop_id)
qed

lemma store_batch_facts:
  assumes "0 < bs" "0 \<le> i" "i < int (length cs)"
    and len: "length b = length (batch_comments cs bs i)"
  shows "length (store_batch cs i b) = length cs"
    and "take (nat i) (store_batch cs i b) = take (nat i) cs"
    and "drop (nat (i + bs)) (store_batch cs i b) = drop (nat (i + bs)) cs"
    and "batch_comments (store_batch cs i b) bs i = b"
    and "take (nat (i + bs)) (store_batch cs i b) = take (nat i) cs @ b"
proof -
  define n m where "n = nat i" and "m = nat bs"
  have nm: "nat (i + bs) = n + m" using assms by (simp add: n_def m_def nat_add_distrib)
  have n: "n < length cs" using assms by (simp add: n_def)
  have bc: "batch_comments xs bs i = take m (drop n xs)" for xs :: "comment list"
    using assms by (simp add: batch_comments_take_drop n_def m_def)
  have k: "length b = min m (length cs - n)" using len by (simp add: bc min.commute)
  have m: "0 < m" using assms by (simp add: m_def)
  have sb: "store_batch cs i b = take n cs @ b @ drop (n + length b) cs"
    by (simp add: store_batch_def n_def)
  show "length (store_batch cs i b) = length cs"
    using n k by (simp add: sb min_def)
  show "take (nat i) (store_batch cs i b) = take (nat i) cs"
    using n by (simp add: sb n_def[symmetric])
  have tail: "drop m (b @ drop (n + length b) cs) = drop (n + m) cs"
  proof (cases "m \<le> length cs - n")
    case True
    then have "length b = m" using k by simp
    then show ?thesis by simp
  next
    case False
    then have "length b = length cs - n" using k by simp
    with False n show ?thesis by simp
  qed
  show "drop (nat (i + bs)) (store_batch cs i b) = drop (nat (i + bs)) cs"
    using n tail by (simp add: sb nm drop_append min_def)
  have hd: "take m (b @ drop (n + length b) cs) = b"
  proof (cases "m \<le> length cs - n")
    case True
    then have "length b = m" using k by simp
    then show ?thesis by simp
  next
    case False
    then have "length b = length cs - n" using k by simp
    with False n show ?thesis by simp
  qed
  show "batch_comments (store_batch cs i b) bs i = b"
    using n hd by (simp add: bc sb drop_append min_def)
  show "take (nat (i + bs)) (store_batch cs i b) = take (nat i) cs @ b"
    using n hd by (simp add: sb nm take_append min_def n_def[symmetric])
qed

lemma store_batch_map:
  assumes "0 < bs" "0 \<le> i"
    and "map f b = map f (batch_comments cs bs i)"
  shows "map f (store_batch cs i b) = map f cs"
proof -
  define n m where "n = nat i" and "m = nat bs"
  have bc: "batch_comments cs bs i = take m (drop n cs)"
    using assms by (simp add: batch_comments_take_drop n_def m_def)
  from assms(3) have "length b = length (take m (drop n cs))"
    unfolding bc by (metis length_map)
  then have "store_batch cs i b = take n cs @ b @ drop (n + length (take m (drop n cs))) cs"
    by (simp add: store_batch_def n_def)
  then have "map f (store_batch cs i b)
     = map f (take n cs @ take m (drop n cs) @ drop (n + length (take m (drop n cs))) cs)"
    using assms(3) unfolding bc by simp
  also have "\<dots> = map f cs"
    by (rule arg_cong[where f = "map f"], rule split_at_batch[symmetric])
  finally show ?thesis .
qed

lemma has_prompt_keys_other_fields:
  "has_prompt_keys c = has_prompt_keys (other_fields c)"
  by (simp add: has_prompt_keys_def map_of_other_fields classification_fields_def)

lemma has_prompt_keys_map:
  assumes "map other_fields cs' = map other_fields cs"
  shows "(\<forall>c\<in>set cs'. has_prompt_keys c) = (\<forall>c\<in>set cs. has_prompt_keys c)"
proof -
  have "(\<forall>c\<in>set xs. has_prompt_keys c) = (\<forall>x\<in>set (map other_fields xs). has_prompt_keys x)"
    for xs
    using has_prompt_keys_other_fields by auto
  then show ?thesis using assms by metis
qed

lemma batch_step_result:
  assumes "batch_step w vid bs num i st = Inr st1"
  shows "\<exists>b. comments st1 = store_batch (comments st) i b
      \<and> map other_fields b = map other_fields (batch_comments (comments st) bs i)
      \<and> (\<forall>c\<in>set b. reconciled c)
      \<and> (always_raises w (batch_prompt (batch_comments (comments st) bs i))
           \<longrightarrow> b = map set_defaults (batch_comments (comments st) bs i)
               \<and> num \<in> set (failed_batches st1))"
proof -
  define batch where "batch = batch_comments (comments st) bs i"
  from assms have keys: "\<forall>c\<in>set batch. has_prompt_keys c"
    by (auto simp: batch_step_def batch_def[symmetric] add_comments_eq Let_def split: if_splits)
  obtain exc batch' uri calls' where
    tb: "try_block w vid num (batch_prompt batch) batch (api_calls st) = (exc, batch', uri, calls')"
    by (metis prod_cases4)
  have of: "map other_fields batch' = map other_fields batch"
    using tb by (rule try_block_other_fields)
  show ?thesis
  proof (cases exc)
    case None
    with assms keys tb have c: "comments st1 = store_batch (comments st) i batch'"
      by (auto simp: batch_step_def batch_def[symmetric] add_comments_eq batch_prompt_def)
    have r: "\<forall>c\<in>set batch'. reconciled c"
      using tb None try_block_reconciled by blast
    have "\<not> always_raises w (batch_prompt batch)"
    proof
      assume "always_raises w (batch_prompt batch)"
      then obtain e where "call_openai_api w (batch_prompt batch) (api_calls st)
          = (Inl e, api_calls st @ [batch_prompt batch, batch_prompt batch, batch_prompt batch])"
        using always_raises_call by blast
      then show False using tb None by (simp add: try_block_call_fails)
    qed
    with c of r show ?thesis unfolding batch_def[symmetric] by blast
  next
    case (Some e)
    with assms keys tb have c: "comments st1 = store_batch (comments st) i (map set_defaults batch')"
      and f: "num \<in> set (failed_batches st1)"
      by (auto simp: batch_step_def batch_def[symmetric] add_comments_eq batch_prompt_def)
    have o: "map other_fields (map set_defaults batch') = map other_fields batch"
      using of by (simp add: other_fields_set_defaults comp_def)
    have r: "\<forall>c\<in>set (map set_defaults batch'). reconciled c"
      by (simp add: all_unknown_reconciled all_unknown_set_defaults)
    have "batch' = batch" if "always_raises w (batch_prompt batch)"
    proof -
      from that obtain e' where "call_openai_api w (batch_prompt batch) (api_calls st)
          = (Inl e', api_calls st @ [batch_prompt batch, batch_prompt batch, batch_prompt batch])"
        using always_raises_call by blast
      then show ?thesis using tb by (simp add: try_block_call_fails)
    qed
    with c o r f show ?thesis unfolding batch_def[symmetric] by blast
  qed
qed

lemma batch_step_total:
  assumes "\<forall>c\<in>set (batch_comments (comments st) bs i). has_prompt_keys c"
  shows "\<exists>st1. batch_step w vid bs num i st = Inr st1"
proof -
  define batch where "batch = batch_comments (comments st) bs i"
  obtain exc batch' uri calls' where
    tb: "try_block w vid num (batch_prompt batch) batch (api_calls st) = (exc, batch', uri, calls')"
    by (metis prod_cases4)
  with assms show ?thesis
    by (cases exc) (simp_all add: batch_step_def batch_def[symmetric] add_comments_eq batch_prompt_def)
qed

section \<open>Lemmas about the batch loop\<close>

lemma range_list_member:
  assumes "0 < B" "j \<in> set (range_list i N B)"
  shows "i \<le> j \<and> j < N"
proof -
  from assms(2) obtain k where k: "k < length (range_list i N B)" "range_list i N B ! k = j"
    by (auto simp: in_set_conv_nth)
  with range_list_nth[OF assms(1) k(1)] assms(1) show ?thesis by auto
qed

lemma batch_comments_cong_take:
  assumes "0 < bs" "0 \<le> i" "take (nat (i + bs)) xs = take (nat (i + bs)) ys"
  shows "batch_comments xs bs i = batch_comments ys bs i"
proof -
  have "take (nat bs) (drop (nat i) zs) = drop (nat i) (take (nat (i + bs)) zs)" for zs :: "'a list"
    using assms(1,2) by (simp add: drop_take nat_add_distrib)
  with assms show ?thesis by (simp add: batch_comments_take_drop)
qed

lemma batch_comments_cong_drop:
  assumes "0 < bs" "0 \<le> m" "m \<le> j" "drop (nat m) xs = drop (nat m) ys"
  shows "batch_comments xs bs j = batch_comments ys bs j"
proof -
  have d: "drop (nat j) zs = drop (nat j - nat m) (drop (nat m) zs)" for zs :: "'a list"
    using assms(2,3) by simp
  have "drop (nat j) xs = drop (nat j) ys"
    by (metis d assms(4))
  with assms show ?thesis by (simp add: batch_comments_take_drop)
qed

lemma drop_via_take: "n \<le> m \<Longrightarrow> drop n xs = drop n (take m xs) @ drop m xs"
  by (metis append_take_drop_id drop_append length_take min.absorb2 drop_all
      diff_is_0_eq' drop0 le_cases take_all append_Nil)

lemma batch_loop_result:
  assumes "0 < bs" "0 \<le> i" "N = int (length (comments st))"
    and "batch_loop w vid bs (enumerate num (range_list i N bs)) st = Inr st'"
  shows "length (comments st') = length (comments st)
    \<and> take (nat i) (comments st') = take (nat i) (comments st)
    \<and> map other_fields (comments st') = map other_fields (comments st)
    \<and> (\<forall>c\<in>set (drop (nat i) (comments st')). reconciled c)
    \<and> (\<forall>j\<in>set (range_list i N bs).
          always_raises w (batch_prompt (batch_comments (comments st) bs j))
          \<longrightarrow> batch_comments (comments st') bs j
              = map set_defaults (batch_comments (comments st) bs j))"
  using assms
proof (induction i N bs arbitrary: st num rule: range_list.induct)
  case (1 i stop step)
  show ?case
  proof (cases "i < stop")
    case False
    with "1.prems" have e: "range_list i stop step = []" by (simp add: range_list_empty)
    with "1.prems" have "st' = st" by simp
    moreover have "drop (nat i) (comments st) = []" using False "1.prems" by simp
    ultimately show ?thesis using e by simp
  next
    case True
    define cs where "cs = comments st"
    have unf: "range_list i stop step = i # range_list (i + step) stop step"
      using "1.prems"(1) True by (rule range_list_unfold)
    from "1.prems"(4) obtain st1 where
      s1: "batch_step w vid step num i st = Inr st1" and
      rest: "batch_loop w vid step (enumerate (Suc num) (range_list (i + step) stop step)) st1 = Inr st'"
      by (auto simp: unf split: sum.splits)
    from batch_step_result[OF s1] obtain b where
      b: "comments st1 = store_batch cs i b"
         "map other_fields b = map other_fields (batch_comments cs step i)"
         "\<forall>c\<in>set b. reconciled c"
         "always_raises w (batch_prompt (batch_comments cs step i))
            \<longrightarrow> b = map set_defaults (batch_comments cs step i)"
      unfolding cs_def by blast
    have lenb: "length b = length (batch_comments cs step i)"
      using b(2) by (metis length_map)
    have ilt: "i < int (length cs)" using True "1.prems"(3) by (simp add: cs_def)
    note sf = store_batch_facts[OF "1.prems"(1) "1.prems"(2) ilt lenb]
    have len1: "stop = int (length (comments st1))"
      using sf(1) "1.prems"(3) by (simp add: b(1) cs_def)
    have ipos: "0 \<le> i + step" using "1.prems"(1,2) by simp
    have IH: "length (comments st') = length (comments st1)
      \<and> take (nat (i + step)) (comments st') = take (nat (i + step)) (comments st1)
      \<and> map other_fields (comments st') = map other_fields (comments st1)
      \<and> (\<forall>c\<in>set (drop (nat (i + step)) (comments st')). reconciled c)
      \<and> (\<forall>j\<in>set (range_list (i + step) stop step).
            always_raises w (batch_prompt (batch_comments (comments st1) step j))
            \<longrightarrow> batch_comments (comments st') step j
                = map set_defaults (batch_comments (comments st1) step j))"
      using "1.IH"[OF _ "1.prems"(1) ipos len1 rest] True "1.prems"(1) by simp
    have tk: "take (nat (i + step)) (comments st') = take (nat i) cs @ b"
      using IH sf(5) by (simp add: b(1))
    have le: "nat i \<le> nat (i + step)" using "1.prems"(1,2) by simp
    have li: "length (take (nat i) cs) = nat i" using ilt by simp
    have A: "length (comments st') = length (comments st)"
      using IH sf(1) by (simp add: b(1) cs_def)
    have "take (nat i) (comments st') = take (nat i) (take (nat (i + step)) (comments st'))"
      using le by (simp add: min_def)
    also have "\<dots> = take (nat i) cs" using li by (simp add: tk)
    finally have B: "take (nat i) (comments st') = take (nat i) (comments st)"
      by (simp add: cs_def)
    have C: "map other_fields (comments st') = map other_fields (comments st)"
      using IH store_batch_map[OF "1.prems"(1) "1.prems"(2) b(2)] by (simp add: b(1) cs_def)
    have "drop (nat i) (comments st')
        = drop (nat i) (take (nat (i + step)) (comments st')) @ drop (nat (i + step)) (comments st')"
      using le by (rule drop_via_take)
    also have "drop (nat i) (take (nat (i + step)) (comments st')) = b"
      using li by (simp add: tk)
    finally have D: "\<forall>c\<in>set (drop (nat i) (comments st')). reconciled c"
      using IH b(3) by auto
    have E: "batch_comments (comments st') step j = map set_defaults (batch_comments cs step j)"
      if j: "j \<in> set (range_list i stop step)"
        and ar: "always_raises w (batch_prompt (batch_comments cs step j))" for j
    proof (cases "j = i")
      case True
      have "batch_comments (comments st') step i = batch_comments (comments st1) step i"
        using IH by (intro batch_comments_cong_take[OF "1.prems"(1) "1.prems"(2)]) simp
      also have "\<dots> = b" using sf(4) by (simp add: b(1))
      finally show ?thesis using ar b(4) True by simp
    next
      case False
      with j have j': "j \<in> set (range_list (i + step) stop step)" by (simp add: unf)
      then have ge: "i + step \<le> j"
        using range_list_member[OF "1.prems"(1)] by blast
      have same: "batch_comments (comments st1) step j = batch_comments cs step j"
        using sf(3) by (intro batch_comments_cong_drop[OF "1.prems"(1) ipos ge]) (simp add: b(1))
      with IH j' ar show ?thesis by simp
    qed
    from A B C D E show ?thesis unfolding cs_def by blast
  qed
qed

lemma batch_loop_total:
  assumes "0 < bs" "0 \<le> i" "N = int (length (comments st))"
    and "\<forall>c\<in>set (comments st). has_prompt_keys c"
  shows "\<exists>st'. batch_loop w vid bs (enumerate num (range_list i N bs)) st = Inr st'"
  using assms
proof (induction i N bs arbitrary: st num rule: range_list.induct)
  case (1 i stop step)
  show ?case
  proof (cases "i < stop")
    case False
    with "1.prems" have e: "range_list i stop step = []" by (simp add: range_list_empty)
    then show ?thesis by simp
  next
    case True
    have unf: "range_list i stop step = i # range_list (i + step) stop step"
      using "1.prems"(1) True by (rule range_list_unfold)
    have "set (batch_comments (comments st) step i) \<subseteq> set (comments st)"
      using "1.prems"(1,2) by (auto simp: batch_comments_take_drop dest: in_set_takeD in_set_dropD)
    with "1.prems"(4) have "\<forall>c\<in>set (batch_comments (comments st) step i). has_prompt_keys c"
      by blast
    from batch_step_total[OF this] obtain st1 where
      s1: "batch_step w vid step num i st = Inr st1" by blast
    from batch_step_result[OF s1] obtain b where
      b: "comments st1 = store_batch (comments st) i b"
         "map other_fields b = map other_fields (batch_comments (comments st) step i)"
      by blast
    have lenb: "length b = length (batch_comments (comments st) step i)"
      using b(2) by (metis length_map)
    have ilt: "i < int (length (comments st))" using True "1.prems"(3) by simp
    have len1: "stop = int (length (comments st1))"
      using store_batch_facts(1)[OF "1.prems"(1) "1.prems"(2) ilt lenb] "1.prems"(3)
      by (simp add: b(1))
    have "map other_fields (comments st1) = map other_fields (comments st)"
      using store_batch_map[OF "1.prems"(1) "1.prems"(2) b(2)] by (simp add: b(1))
    then have keys1: "\<forall>c\<in>set (comments st1). has_prompt_keys c"
      using "1.prems"(4) has_prompt_keys_map by blast
    have ipos: "0 \<le> i + step" using "1.prems"(1,2) by simp
    from "1.IH"[OF _ "1.prems"(1) ipos len1 keys1, of "Suc num"] True "1.prems"(1)
    obtain st' where
      "batch_loop w vid step (enumerate (Suc num) (range_list (i + step) stop step)) st1 = Inr st'"
      by auto
    with s1 show ?thesis by (simp add: unf)
  qed
qed

lemma classify_and_upload_comments_loop:
  assumes "0 < bs"
  shows "classify_and_upload_comments w cs vid bs calls =
     batch_loop w vid bs (enumerate 1 (range_list 0 (int (length cs)) bs))
       \<lparr>comments = cs, s3_uris = [], api_calls = calls, failed_batches = []\<rparr>"
  using assms by (simp add: classify_and_upload_comments_def total_batches_def py_range_def)

lemma upgrade_run:
  assumes "0 < bs" "\<forall>c\<in>set cs. has_prompt_keys c"
  shows "\<exists>st'. classify_and_upload_comments w cs vid bs calls = Inr st'
      \<and> map other_fields (comments st') = map other_fields cs
      \<and> (\<forall>c\<in>set (comments st'). reconciled c)"
proof -
  define st0 where "st0 = \<lparr>comments = cs, s3_uris = [], api_calls = calls, failed_batches = []\<rparr>"
  have c0: "comments st0 = cs" by (simp add: st0_def)
  have N: "int (length cs) = int (length (comments st0))" by (simp add: c0)
  from batch_loop_total[OF assms(1) order_refl N, of w vid 1] assms(2) obtain st' where
    r: "batch_loop w vid bs (enumerate 1 (range_list 0 (int (length cs)) bs)) st0 = Inr st'"
    by (auto simp: c0)
  from batch_loop_result[OF assms(1) order_refl N r] c0
  have "map other_fields (comments st') = map other_fields cs"
    "\<forall>c\<in>set (comments st'). reconciled c" by simp_all
  with r show ?thesis
    using classify_and_upload_comments_loop[OF assms(1), of w cs vid calls]
    by (simp add: st0_def)
qed

lemma upgrade_failed_batch:
  assumes "0 < bs" "\<forall>c\<in>set cs. has_prompt_keys c"
    and "j \<in> set (range_list 0 (int (length cs)) bs)"
    and "always_raises w (batch_prompt (batch_comments cs bs j))"
  shows "\<exists>st'. classify_and_upload_comments w cs vid bs calls = Inr st'
      \<and> batch_comments (comments st') bs j = map set_defaults (batch_comments cs bs j)"
proof -
  define st0 where "st0 = \<lparr>comments = cs, s3_uris = [], api_calls = calls, failed_batches = []\<rparr>"
  have c0: "comments st0 = cs" by (simp add: st0_def)
  have N: "int (length cs) = int (length (comments st0))" by (simp add: c0)
  from batch_loop_total[OF assms(1) order_refl N, of w vid 1] assms(2) obtain st' where
    r: "batch_loop w vid bs (enumerate 1 (range_list 0 (int (length cs)) bs)) st0 = Inr st'"
    by (auto simp: c0)
  from batch_loop_result[OF assms(1) order_refl N r] c0 assms(3,4)
  have "batch_comments (comments st') bs j = map set_defaults (batch_comments cs bs j)"
    by simp
  with r show ?thesis
    using classify_and_upload_comments_loop[OF assms(1), of w cs vid calls]
    by (simp add: st0_def)
qed

lemma upgrade_frame:
  assumes "classify_and_upload_comments w cs vid bs calls = Inr st'"
  shows "map other_fields (comments st') = map other_fields cs"
proof -
  define st0 where "st0 = \<lparr>comments = cs, s3_uris = [], api_calls = calls, failed_batches = []\<rparr>"
  have c0: "comments st0 = cs" by (simp add: st0_def)
  have N: "int (length cs) = int (length (comments st0))" by (simp add: c0)
  consider "bs = 0" | "bs < 0" | "0 < bs" by linarith
  then show ?thesis
  proof cases
    case 1
    with assms show ?thesis by (simp add: classify_and_upload_comments_def total_batches_def)
  next
    case 2
    then have "range_list 0 (int (length cs)) bs = []"
      by (subst range_list.simps) simp
    with 2 assms show ?thesis
      by (auto simp: classify_and_upload_comments_def total_batches_def py_range_def)
  next
    case 3
    from assms have r: "batch_loop w vid bs (enumerate 1 (range_list 0 (int (length cs)) bs)) st0 = Inr st'"
      using classify_and_upload_comments_loop[OF 3, of w cs vid calls] by (simp add: st0_def)
    from batch_loop_result[OF 3 order_refl N r] c0 show ?thesis by simp
  qed
qed

section \<open>Lemmas about the old file\<close>

lemma all_unknown_reconciled_v1: "all_unknown c \<Longrightarrow> reconciled_v1 c"
  by (simp add: all_unknown_def reconciled_v1_def enum_or_blank_def py_in_Cons)

lemma reconcile_comment_v1_reconciled:
  "reconcile_comment_v1 cd c = (None, c') \<Longrightarrow> reconciled_v1 c'"
  by (auto simp: reconcile_comment_v1_def Let_def reconciled_v1_def enum_or_blank_def update_conv'
      validated_v1_cases py_in_Cons split: sum.splits option.splits if_splits)

lemma try_block_v1_other_fields:
  assumes "try_block_v1 w p batch calls = (exc, batch', calls')"
  shows "map other_fields batch' = map other_fields batch"
  using assms reconcile_other_fields[of "reconcile_comment_v1 cd" for cd, OF reconcile_comment_v1_other_fields]
  unfolding try_block_v1_def
  by (auto simp: Let_def split: prod.splits sum.splits option.splits)

lemma try_block_v1_reconciled:
  assumes "try_block_v1 w p batch calls = (None, batch', calls')"
  shows "\<forall>c\<in>set batch'. reconciled_v1 c"
  using assms reconcile_all[of "reconcile_comment_v1 cd" reconciled_v1 for cd, OF reconcile_comment_v1_reconciled]
  unfolding try_block_v1_def
  by (auto simp: Let_def split: prod.splits sum.splits option.splits)

lemma try_block_v1_call_fails:
  assumes "call_openai_api w p calls = (Inl e, calls1)"
  shows "try_block_v1 w p batch calls = (Some e, batch, calls1)"
  using assms by (simp add: try_block_v1_def)

lemma batch_step_v1_result:
  assumes "batch_step_v1 w bs i st = Inr st1"
  shows "\<exists>b. comments_v1 st1 = store_batch (comments_v1 st) i b
      \<and> map other_fields b = map other_fields (batch_comments (comments_v1 st) bs i)
      \<and> (\<forall>c\<in>set b. reconciled_v1 c)
      \<and> classification_prompt st1
          = classification_prompt st @ prompt_lines '','' (batch_comments (comments_v1 st) bs i)
      \<and> (always_raises w (classification_prompt st
                            @ prompt_lines '','' (batch_comments (comments_v1 st) bs i))
           \<longrightarrow> b = map set_defaults (batch_comments (comments_v1 st) bs i))"
proof -
  define batch where "batch = batch_comments (comments_v1 st) bs i"
  define p where "p = classification_prompt st @ prompt_lines '','' batch"
  from assms have keys: "\<forall>c\<in>set batch. has_prompt_keys c"
    by (auto simp: batch_step_v1_def batch_def[symmetric] add_comments_eq Let_def split: if_splits)
  obtain exc batch' calls' where
    tb: "try_block_v1 w p batch (api_calls_v1 st) = (exc, batch', calls')"
    by (metis prod_cases3)
  have of: "map other_fields batch' = map other_fields batch"
    using tb by (rule try_block_v1_other_fields)
  show ?thesis
  proof (cases exc)
    case None
    with assms keys tb have c: "comments_v1 st1 = store_batch (comments_v1 st) i batch'"
      and q: "classification_prompt st1 = p"
      by (auto simp: batch_step_v1_def batch_def[symmetric] add_comments_eq p_def)
    have r: "\<forall>c\<in>set batch'. reconciled_v1 c"
      using tb None try_block_v1_reconciled by blast
    have "\<not> always_raises w p"
    proof
      assume "always_raises w p"
      then obtain e where "call_openai_api w p (api_calls_v1 st)
          = (Inl e, api_calls_v1 st @ [p, p, p])"
        using always_raises_call by blast
      then show False using tb None by (simp add: try_block_v1_call_fails)
    qed
    with c of r q show ?thesis unfolding batch_def[symmetric] p_def[symmetric] by blast
  next
    case (Some e)
    with assms keys tb have c: "comments_v1 st1 = store_batch (comments_v1 st) i (map set_defaults batch')"
      and q: "classification_prompt st1 = p"
      by (auto simp: batch_step_v1_def batch_def[symmetric] add_comments_eq p_def)
    have o: "map other_fields (map set_defaults batch') = map other_fields batch"
      using of by (simp add: other_fields_set_defaults comp_def)
    have r: "\<forall>c\<in>set (map set_defaults batch'). reconciled_v1 c"
      by (simp add: all_unknown_reconciled_v1 all_unknown_set_defaults)
    have "batch' = batch" if "always_raises w p"
    proof -
      from that obtain e' where "call_openai_api w p (api_calls_v1 st)
          = (Inl e', api_calls_v1 st @ [p, p, p])"
        using always_raises_call by blast
      then show ?thesis using tb by (simp add: try_block_v1_call_fails)
    qed
    with c o r q show ?thesis unfolding batch_def[symmetric] p_def[symmetric] by blast
  qed
qed

lemma batch_step_v1_total:
  assumes "\<forall>c\<in>set (batch_comments (comments_v1 st) bs i). has_prompt_keys c"
  shows "\<exists>st1. batch_step_v1 w bs i st = Inr st1"
proof -
  define batch where "batch = batch_comments (comments_v1 st) bs i"
  define p where "p = classification_prompt st @ prompt_lines '','' batch"
  obtain exc batch' calls' where
    tb: "try_block_v1 w p batch (api_calls_v1 st) = (exc, batch', calls')"
    by (metis prod_cases3)
  with assms show ?thesis
    by (cases exc) (simp_all add: batch_step_v1_def batch_def[symmetric] add_comments_eq p_def)
qed

lemma prompt_lines_append:
  "prompt_lines ending (xs @ ys) = prompt_lines ending xs @ prompt_lines ending ys"
  by (simp add: prompt_lines_def)

lemma batch_loop_v1_result:
  assumes "0 < bs" "0 \<le> i" "N = int (length (comments_v1 st))"
    and "batch_loop_v1 w bs (range_list i N bs) st = Inr st'"
  shows "length (comments_v1 st') = length (comments_v1 st)
    \<and> take (nat i) (comments_v1 st') = take (nat i) (comments_v1 st)
    \<and> map other_fields (comments_v1 st') = map other_fields (comments_v1 st)
    \<and> (\<forall>c\<in>set (drop (nat i) (comments_v1 st')). reconciled_v1 c)
    \<and> (\<forall>j\<in>set (range_list i N bs).
          always_raises w (classification_prompt st
            @ prompt_lines '','' (take (nat (j + bs) - nat i) (drop (nat i) (comments_v1 st))))
          \<longrightarrow> batch_comments (comments_v1 st') bs j
              = map set_defaults (batch_comments (comments_v1 st) bs j))"
  using assms
proof (induction i N bs arbitrary: st rule: range_list.induct)
  case (1 i stop step)
  show ?case
  proof (cases "i < stop")
    case False
    with "1.prems" have e: "range_list i stop step = []" by (simp add: range_list_empty)
    with "1.prems" have "st' = st" by simp
    moreover have "drop (nat i) (comments_v1 st) = []" using False "1.prems" by simp
    ultimately show ?thesis using e by simp
  next
    case True
    define cs where "cs = comments_v1 st"
    have unf: "range_list i stop step = i # range_list (i + step) stop step"
      using "1.prems"(1) True by (rule range_list_unfold)
    from "1.prems"(4) obtain st1 where
      s1: "batch_step_v1 w step i st = Inr st1" and
      rest: "batch_loop_v1 w step (range_list (i + step) stop step) st1 = Inr st'"
      by (auto simp: unf split: sum.splits)
    have bc: "batch_comments cs step i = take (nat step) (drop (nat i) cs)"
      using "1.prems"(1,2) by (simp add: batch_comments_take_drop)
    from batch_step_v1_result[OF s1] obtain b where
      b: "comments_v1 st1 = store_batch cs i b"
         "map other_fields b = map other_fields (batch_comments cs step i)"
         "\<forall>c\<in>set b. reconciled_v1 c"
         "classification_prompt st1
            = classification_prompt st @ prompt_lines '','' (batch_comments cs step i)"
         "always_raises w (classification_prompt st @ prompt_lines '','' (batch_comments cs step i))
            \<longrightarrow> b = map set_defaults (batch_comments cs step i)"
      unfolding cs_def by blast
    have lenb: "length b = length (batch_comments cs step i)"
      using b(2) by (metis length_map)
    have ilt: "i < int (length cs)" using True "1.prems"(3) by (simp add: cs_def)
    note sf = store_batch_facts[OF "1.prems"(1) "1.prems"(2) ilt lenb]
    have len1: "stop = int (length (comments_v1 st1))"
      using sf(1) "1.prems"(3) by (simp add: b(1) cs_def)
    have ipos: "0 \<le> i + step" using "1.prems"(1,2) by simp
    have IH: "length (comments_v1 st') = length (comments_v1 st1)
      \<and> take (nat (i + step)) (comments_v1 st') = take (nat (i + step)) (comments_v1 st1)
      \<and> map other_fields (comments_v1 st') = map other_fields (comments_v1 st1)
      \<and> (\<forall>c\<in>set (drop (nat (i + step)) (comments_v1 st')). reconciled_v1 c)
      \<and> (\<forall>j\<in>set (range_list (i + step) stop step).
            always_raises w (classification_prompt st1
              @ prompt_lines '','' (take (nat (j + step) - nat (i + step))
                                      (drop (nat (i + step)) (comments_v1 st1))))
            \<longrightarrow> batch_comments (comments_v1 st') step j
                = map set_defaults (batch_comments (comments_v1 st1) step j))"
      using "1.IH"[OF _ "1.prems"(1) ipos len1 rest] True "1.prems"(1) by simp
    have tk: "take (nat (i + step)) (comments_v1 st') = take (nat i) cs @ b"
      using IH sf(5) by (simp add: b(1))
    have le: "nat i \<le> nat (i + step)" using "1.prems"(1,2) by simp
    have li: "length (take (nat i) cs) = nat i" using ilt by simp
    have A: "length (comments_v1 st') = length (comments_v1 st)"
      using IH sf(1) by (simp add: b(1) cs_def)
    have "take (nat i) (comments_v1 st') = take (nat i) (take (nat (i + step)) (comments_v1 st'))"
      using le by (simp add: min_def)
    also have "\<dots> = take (nat i) cs" using li by (simp add: tk)
    finally have B: "take (nat i) (comments_v1 st') = take (nat i) (comments_v1 st)"
      by (simp add: cs_def)
    have C: "map other_fields (comments_v1 st') = map other_fields (comments_v1 st)"
      using IH store_batch_map[OF "1.prems"(1) "1.prems"(2) b(2)] by (simp add: b(1) cs_def)
    have "drop (nat i) (comments_v1 st')
        = drop (nat i) (take (nat (i + step)) (comments_v1 st')) @ drop (nat (i + step)) (comments_v1 st')"
      using le by (rule drop_via_take)
    also have "drop (nat i) (take (nat (i + step)) (comments_v1 st')) = b"
      using li by (simp add: tk)
    finally have D: "\<forall>c\<in>set (drop (nat i) (comments_v1 st')). reconciled_v1 c"
      using IH b(3) by auto
    have E: "batch_comments (comments_v1 st') step j = map set_defaults (batch_comments cs step j)"
      if j: "j \<in> set (range_list i stop step)"
        and ar: "always_raises w (classification_prompt st
            @ prompt_lines '','' (take (nat (j + step) - nat i) (drop (nat i) cs)))" for j
    proof (cases "j = i")
      case True
      have "nat (i + step) - nat i = nat step" using "1.prems"(1,2) by simp
      with ar True have ar': "always_raises w (classification_prompt st
            @ prompt_lines '','' (batch_comments cs step i))"
        by (simp add: bc)
      have "batch_comments (comments_v1 st') step i = batch_comments (comments_v1 st1) step i"
        using IH by (intro batch_comments_cong_take[OF "1.prems"(1) "1.prems"(2)]) simp
      also have "\<dots> = b" using sf(4) by (simp add: b(1))
      finally show ?thesis using ar' b(5) True by simp
    next
      case False
      with j have j': "j \<in> set (range_list (i + step) stop step)" by (simp add: unf)
      then have ge: "i + step \<le> j"
        using range_list_member[OF "1.prems"(1)] by blast
      have same: "batch_comments (comments_v1 st1) step j = batch_comments cs step j"
        using sf(3) by (intro batch_comments_cong_drop[OF "1.prems"(1) ipos ge]) (simp add: b(1))
      have n: "nat (j + step) - nat i = nat step + (nat (j + step) - nat (i + step))"
        using ge "1.prems"(1,2) by simp
      have "take (nat (j + step) - nat i) (drop (nat i) cs)
          = take (nat step) (drop (nat i) cs)
            @ take (nat (j + step) - nat (i + step)) (drop (nat step) (drop (nat i) cs))"
        unfolding n by (rule take_add)
      also have "drop (nat step) (drop (nat i) cs) = drop (nat (i + step)) (comments_v1 st1)"
        using sf(3) "1.prems"(1,2) by (simp add: b(1) nat_add_distrib add.commute)
      finally have "classification_prompt st
            @ prompt_lines '','' (take (nat (j + step) - nat i) (drop (nat i) cs))
          = classification_prompt st1
            @ prompt_lines '','' (take (nat (j + step) - nat (i + step))
                                    (drop (nat (i + step)) (comments_v1 st1)))"
        by (simp add: b(4) bc prompt_lines_append)
      with IH j' ar same show ?thesis by simp
    qed
    from A B C D E show ?thesis unfolding cs_def by blast
  qed
qed

lemma batch_loop_v1_total:
  assumes "0 < bs" "0 \<le> i" "N = int (length (comments_v1 st))"
    and "\<forall>c\<in>set (comments_v1 st). has_prompt_keys c"
  shows "\<exists>st'. batch_loop_v1 w bs (range_list i N bs) st = Inr st'"
  using assms
proof (induction i N bs arbitrary: st rule: range_list.induct)
  case (1 i stop step)
  show ?case
  proof (cases "i < stop")
    case False
    with "1.prems" have e: "range_list i stop step = []" by (simp add: range_list_empty)
    then show ?thesis by simp
  next
    case True
    have unf: "range_list i stop step = i # range_list (i + step) stop step"
      using "1.prems"(1) True by (rule range_list_unfold)
    have "set (batch_comments (comments_v1 st) step i) \<subseteq> set (comments_v1 st)"
      using "1.prems"(1,2) by (auto simp: batch_comments_take_drop dest: in_set_takeD in_set_dropD)
    with "1.prems"(4) have "\<forall>c\<in>set (batch_comments (comments_v1 st) step i). has_prompt_keys c"
      by blast
    from batch_step_v1_total[OF this] obtain st1 where
      s1: "batch_step_v1 w step i st = Inr st1" by blast
    from batch_step_v1_result[OF s1] obtain b where
      b: "comments_v1 st1 = store_batch (comments_v1 st) i b"
         "map other_fields b = map other_fields (batch_comments (comments_v1 st) step i)"
      by blast
    have lenb: "length b = length (batch_comments (comments_v1 st) step i)"
      using b(2) by (metis length_map)
    have ilt: "i < int (length (comments_v1 st))" using True "1.prems"(3) by simp
    have len1: "stop = int (length (comments_v1 st1))"
      using store_batch_facts(1)[OF "1.prems"(1) "1.prems"(2) ilt lenb] "1.prems"(3)
      by (simp add: b(1))
    have "map other_fields (comments_v1 st1) = map other_fields (comments_v1 st)"
      using store_batch_map[OF "1.prems"(1) "1.prems"(2) b(2)] by (simp add: b(1))
    then have keys1: "\<forall>c\<in>set (comments_v1 st1). has_prompt_keys c"
      using "1.prems"(4) has_prompt_keys_map by blast
    have ipos: "0 \<le> i + step" using "1.prems"(1,2) by simp
    from "1.IH"[OF _ "1.prems"(1) ipos len1 keys1] True "1.prems"(1)
    obtain st' where
      "batch_loop_v1 w step (range_list (i + step) stop step) st1 = Inr st'"
      by auto
    with s1 show ?thesis by (simp add: unf)
  qed
qed

lemma classify_comments_loop:
  assumes "0 < bs"
  shows "classify_comments w cs bs calls =
     batch_loop_v1 w bs (range_list 0 (int (length cs)) bs)
       \<lparr>comments_v1 = cs, classification_prompt = [Lit classification_prompt_v1],
        api_calls_v1 = calls, failed_offsets = []\<rparr>"
  using assms by (simp add: classify_comments_def py_range_def)

lemma v1_run:
  assumes "0 < bs" "\<forall>c\<in>set cs. has_prompt_keys c"
  shows "\<exists>st'. classify_comments w cs bs calls = Inr st'
      \<and> map other_fields (comments_v1 st') = map other_fields cs
      \<and> (\<forall>c\<in>set (comments_v1 st'). reconciled_v1 c)"
proof -
  define st0 where "st0 = \<lparr>comments_v1 = cs, classification_prompt = [Lit classification_prompt_v1],
        api_calls_v1 = calls, failed_offsets = []\<rparr>"
  have c0: "comments_v1 st0 = cs" by (simp add: st0_def)
  have N: "int (length cs) = int (length (comments_v1 st0))" by (simp add: c0)
  from batch_loop_v1_total[OF assms(1) order_refl N, of w] assms(2) obtain st' where
    r: "batch_loop_v1 w bs (range_list 0 (int (length cs)) bs) st0 = Inr st'"
    by (auto simp: c0)
  from batch_loop_v1_result[OF assms(1) order_refl N r] c0
  have "map other_fields (comments_v1 st') = map other_fields cs"
    "\<forall>c\<in>set (comments_v1 st'). reconciled_v1 c" by simp_all
  with r show ?thesis
    using classify_comments_loop[OF assms(1), of w cs calls]
    by (simp add: st0_def)
qed

lemma v1_failed_batch:
  assumes "0 < bs" "\<forall>c\<in>set cs. has_prompt_keys c"
    and "j \<in> set (range_list 0 (int (length cs)) bs)"
    and "always_raises w (batch_prompt_v1 cs bs j)"
  shows "\<exists>st'. classify_comments w cs bs calls = Inr st'
      \<and> batch_comments (comments_v1 st') bs j = map set_defaults (batch_comments cs bs j)"
proof -
  define st0 where "st0 = \<lparr>comments_v1 = cs, classification_prompt = [Lit classification_prompt_v1],
        api_calls_v1 = calls, failed_offsets = []\<rparr>"
  have c0: "comments_v1 st0 = cs" "classification_prompt st0 = [Lit classification_prompt_v1]"
    by (simp_all add: st0_def)
  have N: "int (length cs) = int (length (comments_v1 st0))" by (simp add: c0)
  from batch_loop_v1_total[OF assms(1) order_refl N, of w] assms(2) obtain st' where
    r: "batch_loop_v1 w bs (range_list 0 (int (length cs)) bs) st0 = Inr st'"
    by (auto simp: c0)
  from batch_loop_v1_result[OF assms(1) order_refl N r] c0 assms(3,4)
  have "batch_comments (comments_v1 st') bs j = map set_defaults (batch_comments cs bs j)"
    by (simp add: batch_prompt_v1_def)
  with r show ?thesis
    using classify_comments_loop[OF assms(1), of w cs calls]
    by (simp add: st0_def)
qed

lemma v1_frame:
  assumes "classify_comments w cs bs calls = Inr st'"
  shows "map other_fields (comments_v1 st') = map other_fields cs"
proof -
  define st0 where "st0 = \<lparr>comments_v1 = cs, classification_prompt = [Lit classification_prompt_v1],
        api_calls_v1 = calls, failed_offsets = []\<rparr>"
  have c0: "comments_v1 st0 = cs" by (simp add: st0_def)
  have N: "int (length cs) = int (length (comments_v1 st0))" by (simp add: c0)
  consider "bs = 0" | "bs < 0" | "0 < bs" by linarith
  then show ?thesis
  proof cases
    case 1
    with assms show ?thesis by (simp add: classify_comments_def py_range_def)
  next
    case 2
    then have "range_list 0 (int (length cs)) bs = []"
      by (subst range_list.simps) simp
    with 2 assms show ?thesis
      by (auto simp: classify_comments_def py_range_def)
  next
    case 3
    from assms have r: "batch_loop_v1 w bs (range_list 0 (int (length cs)) bs) st0 = Inr st'"
      using classify_comments_loop[OF 3, of w cs calls] by (simp add: st0_def)
    from batch_loop_v1_result[OF 3 order_refl N r] c0 show ?thesis by simp
  qed
qed

lemma batch_step_call_fails:
  assumes "\<forall>c\<in>set (batch_comments (comments st) bs i). has_prompt_keys c"
    and "call_openai_api w (batch_prompt (batch_comments (comments st) bs i)) (api_calls st) = (Inl e, calls1)"
  shows "batch_step w vid bs num i st =
     Inr (st\<lparr>comments := store_batch (comments st) i (map set_defaults (batch_comments (comments st) bs i)),
             api_calls := calls1, failed_batches := failed_batches st @ [num]\<rparr>)"
  using assms
  by (simp add: batch_step_def add_comments_eq batch_prompt_def try_block_call_fails Let_def)

lemma batch_step_v1_call_fails:
  assumes "\<forall>c\<in>set (batch_comments (comments_v1 st) bs i). has_prompt_keys c"
    and "call_openai_api w (classification_prompt st @ prompt_lines '','' (batch_comments (comments_v1 st) bs i))
           (api_calls_v1 st) = (Inl e, calls1)"
  shows "batch_step_v1 w bs i st =
     Inr (st\<lparr>comments_v1 := store_batch (comments_v1 st) i
                               (map set_defaults (batch_comments (comments_v1 st) bs i)),
             classification_prompt := classification_prompt st
                @ prompt_lines '','' (batch_comments (comments_v1 st) bs i),
             api_calls_v1 := calls1, failed_offsets := failed_offsets st @ [i]\<rparr>)"
  using assms
  by (simp add: batch_step_v1_def add_comments_eq try_block_v1_call_fails Let_def)

section \<open>Evaluation lemmas\<close>

lemma range_list_0_2_1: "range_list 0 2 1 = [0, 1]"
  by (simp add: range_list.simps[of 0 2 1] range_list.simps[of 1 2 1] range_list.simps[of 2 2 1])

lemma frame_of_map:
  assumes "map other_fields cs' = map other_fields cs"
  shows "length cs' = length cs
    \<and> (\<forall>n<length cs. map_of (cs' ! n) ''comment_id'' = map_of (cs ! n) ''comment_id''
          \<and> other_fields (cs' ! n) = other_fields (cs ! n)
          \<and> (\<forall>k. k \<notin> set classification_fields \<longrightarrow> map_of (cs' ! n) k = map_of (cs ! n) k))"
proof -
  from assms have len: "length cs' = length cs" by (metis length_map)
  have o: "other_fields (cs' ! n) = other_fields (cs ! n)" if "n < length cs" for n
    using that len assms by (metis nth_map)
  have m: "map_of (cs' ! n) k = map_of (cs ! n) k"
    if "n < length cs" "k \<notin> set classification_fields" for n k
    using o[OF that(1)] map_of_other_fields[OF that(2)] by metis
  have "''comment_id'' \<notin> set classification_fields" by (simp add: classification_fields_def)
  with len o m show ?thesis by blast
qed

section \<open>Lemmas about the fields and the prompts of the upgraded file\<close>

lemma call_openai_api_calls:
  "\<exists>n\<in>{1, 2, 3}. snd (call_openai_api w p calls) = calls @ replicate n p"
  using call_openai_api_cases[of w p calls]
  by (auto simp: numeral_3_eq_3 numeral_2_eq_2 split: sum.splits)

lemma try_block_calls:
  assumes "try_block w vid num p batch calls = (exc, batch', uri, calls')"
  shows "calls' = snd (call_openai_api w p calls)"
  using assms unfolding try_block_def
  by (auto simp: Let_def split: prod.splits sum.splits option.splits)

lemma batch_step_calls:
  assumes "batch_step w vid bs num i st = Inr st1"
  shows "\<exists>n\<in>{1, 2, 3}. api_calls st1
     = api_calls st @ replicate n ([Lit classification_prompt_template]
         @ prompt_lines '',\<newline>'' (batch_comments (comments st) bs i))"
proof -
  define batch where "batch = batch_comments (comments st) bs i"
  from assms have keys: "\<forall>c\<in>set batch. has_prompt_keys c"
    by (auto simp: batch_step_def batch_def[symmetric] add_comments_eq Let_def split: if_splits)
  obtain exc batch' uri calls' where
    tb: "try_block w vid num (batch_prompt batch) batch (api_calls st) = (exc, batch', uri, calls')"
    by (metis prod_cases4)
  have "api_calls st1 = calls'"
    using assms keys tb
    by (cases exc) (auto simp: batch_step_def batch_def[symmetric] add_comments_eq batch_prompt_def)
  with try_block_calls[OF tb] call_openai_api_calls[of w "batch_prompt batch" "api_calls st"]
  show ?thesis unfolding batch_def[symmetric] batch_prompt_def by simp
qed

lemma reconcile_comment_fields:
  assumes "map_of c ''comment_id'' = Some cid" "hash_key cid = Inr hk"
  shows "\<exists>c'. reconcile_comment cd c = (None, c')
     \<and> map_of c' ''sentiment''
        = Some (validated (case map_of cd hk of None \<Rightarrow> [] | Some d \<Rightarrow> d) ''sentiment'' SENTIMENT_ENUM)
     \<and> map_of c' ''positive_status''
        = Some (validated (case map_of cd hk of None \<Rightarrow> [] | Some d \<Rightarrow> d) ''positive_status''
                  POSITIVE_STATUS_ENUM)
     \<and> map_of c' ''comment_category''
        = Some (validated (case map_of cd hk of None \<Rightarrow> [] | Some d \<Rightarrow> d) ''comment_category''
                  COMMENT_CATEGORY_ENUM)
     \<and> map_of c' ''keywords''
        = Some (dict_get (case map_of cd hk of None \<Rightarrow> [] | Some d \<Rightarrow> d) ''keywords'' (PList []))"
  using assms
  by (simp add: reconcile_comment_def getitem_def Let_def update_conv')

lemma validated_unknown:
  "map_of d k = None \<or> (\<exists>v. map_of d k = Some v \<and> v \<notin> PStr ` set enum)
   \<Longrightarrow> validated d k enum = PStr ''UNKNOWN''"
  by (auto simp: validated_def dict_get_def py_in_def list_ex_iff)

lemma validated_member:
  "map_of d k = Some (PStr s) \<Longrightarrow> s \<in> set enum \<Longrightarrow> validated d k enum = PStr s"
  by (auto simp: validated_def dict_get_def py_in_def list_ex_iff)

lemmas eval_defs =
  py_range_def batch_comments_def py_slice_def clamp_index_def Let_def getitem_def
  comment_a_def comment_b_def comment_line_def call_openai_api_cases
  py_in_def SENTIMENT_ENUM_def POSITIVE_STATUS_ENUM_def COMMENT_CATEGORY_ENUM_def
  dict_get_def store_batch_def world_of_def

lemma call_openai_api_raises:
  assumes "fst (call_openai_api w p calls) = Inl e"
  shows "\<exists>e3. attempt_at w p calls 2 = Inl e3 \<and> e = Exc RetryError (Some e3)"
  using assms call_openai_api_cases[of w p calls]
  by (auto simp: attempt_at_def split: sum.splits)

lemma stored_world_run:
  "map_sum id s3_uris
     (classify_and_upload_comments (stored_world put_ok) [comment_a, comment_b] (PStr ''v'') 1 [])
   = Inr (if put_ok then
           [[Lit ''s3://'', Lit ''bucket'', Lit ''/'', Lit ''classified/'', Fmt (PStr ''v''),
             Lit ''/classified_comments_'', Fmt (PStr ''v''), Lit ''_batch_'', Fmt (PInt 1), Lit ''.csv''],
            [Lit ''s3://'', Lit ''bucket'', Lit ''/'', Lit ''classified/'', Fmt (PStr ''v''),
             Lit ''/classified_comments_'', Fmt (PStr ''v''), Lit ''_batch_'', Fmt (PInt 2), Lit ''.csv'']]
          else [])"
  by (simp add: classify_and_upload_comments_def total_batches_def range_list_0_2_1 enumerate_eq_zip
      batch_step_def try_block_def upt_rec
      classification_dict_def reconcile_comment_def validated_def save_comments_to_csv_def
      upload_comments_batch_to_s3_def truthy_def stored_world_def
      empty_answer_service_def eval_defs)

lemma stored_world_event:
  "getitem (event_with n) ''video_id'' = Inr (PStr ''v'')"
  "py_int (stored_world put_ok) (dict_get (event_with n) ''batch_size'' (PInt 20)) = Inr n"
  "fetch_comments_from_s3 (stored_world put_ok) (PStr ''v'') = [comment_a, comment_b]"
  by (simp_all add: getitem_def event_with_def py_int_def dict_get_def fetch_comments_from_s3_def
      stored_world_def)

lemma range_list_negative_step:
  "bs < 0 \<Longrightarrow> range_list 0 (int n) bs = []"
  by (subst range_list.simps) simp

lemma classify_and_upload_comments_negative:
  "bs < 0 \<Longrightarrow> classify_and_upload_comments w cs vid bs calls
     = Inr \<lparr>comments = cs, s3_uris = [], api_calls = calls, failed_batches = []\<rparr>"
  by (simp add: classify_and_upload_comments_def total_batches_def py_range_def
      range_list_negative_step)

lemma classify_comments_negative:
  "bs < 0 \<Longrightarrow> classify_comments w cs bs calls
     = Inr \<lparr>comments_v1 = cs, classification_prompt = [Lit classification_prompt_v1],
            api_calls_v1 = calls, failed_offsets = []\<rparr>"
  by (simp add: classify_comments_def py_range_def range_list_negative_step)

lemma stored_world_s3:
  "s3_put_object (stored_world put_ok) key file_obj = put_ok"
  "S3_BUCKET (stored_world put_ok) = ''bucket''"
  by (simp_all add: stored_world_def)

section \<open>Lemmas about batches processed alone\<close>

lemma call_openai_api_steady:
  assumes "steady w p"
  shows "fst (call_openai_api w p calls) =
     (case attempt_outcome (chat_completions_create w 0 p) of
        Inr v \<Rightarrow> Inr v
      | Inl e \<Rightarrow> Inl (Exc RetryError (Some e)))"
proof -
  have s: "chat_completions_create w n p = chat_completions_create w 0 p" for n
    using assms unfolding steady_def by blast
  have c: "call_openai_api w p calls =
     (case attempt_outcome (chat_completions_create w 0 p) of
        Inr v \<Rightarrow> (Inr v, calls @ [p])
      | Inl e1 \<Rightarrow>
          (case attempt_outcome (chat_completions_create w 0 p) of
             Inr v \<Rightarrow> (Inr v, calls @ [p, p])
           | Inl e2 \<Rightarrow>
               (case attempt_outcome (chat_completions_create w 0 p) of
                  Inr v \<Rightarrow> (Inr v, calls @ [p, p, p])
                | Inl e3 \<Rightarrow> (Inl (Exc RetryError (Some e3)), calls @ [p, p, p]))))"
    using call_openai_api_cases[of w p calls]
    unfolding s[of "length calls + 0"] s[of "length calls + 1"] s[of "length calls + 2"] .
  show ?thesis
    by (cases "attempt_outcome (chat_completions_create w 0 p)") (simp_all add: c)
qed

lemma call_openai_api_prompt_logged:
  "p \<in> set (snd (call_openai_api w p calls)) \<and> set calls \<subseteq> set (snd (call_openai_api w p calls))"
  using call_openai_api_calls[of w p calls] by auto

lemma try_block_steady:
  assumes "steady w p"
  shows "(case try_block w vid num p batch calls of (exc, b, uri, c) \<Rightarrow> (exc, b, uri))
       = (case try_block w vid num p batch calls2 of (exc, b, uri, c) \<Rightarrow> (exc, b, uri))"
proof -
  have f: "fst (call_openai_api w p calls) = fst (call_openai_api w p calls2)"
    using call_openai_api_steady[OF assms] by simp
  obtain r c1 where a: "call_openai_api w p calls = (r, c1)" by (cases "call_openai_api w p calls")
  obtain r2 c2 where b: "call_openai_api w p calls2 = (r2, c2)" by (cases "call_openai_api w p calls2")
  from f a b have "r2 = r" by simp
  with a b show ?thesis
    by (simp add: try_block_def Let_def split: sum.splits prod.splits option.splits)
qed

lemma try_block_v1_steady:
  assumes "steady w p"
  shows "(case try_block_v1 w p batch calls of (exc, b, c) \<Rightarrow> (exc, b))
       = (case try_block_v1 w p batch calls2 of (exc, b, c) \<Rightarrow> (exc, b))"
proof -
  have f: "fst (call_openai_api w p calls) = fst (call_openai_api w p calls2)"
    using call_openai_api_steady[OF assms] by simp
  obtain r c1 where a: "call_openai_api w p calls = (r, c1)" by (cases "call_openai_api w p calls")
  obtain r2 c2 where b: "call_openai_api w p calls2 = (r2, c2)" by (cases "call_openai_api w p calls2")
  from f a b have "r2 = r" by simp
  with a b show ?thesis
    by (simp add: try_block_v1_def Let_def split: sum.splits prod.splits option.splits)
qed

lemma step_effect_steady:
  assumes "steady w (batch_prompt batch)"
  shows "step_effect w vid num batch calls = step_effect w vid num batch calls2"
proof -
  obtain e b u c where a: "try_block w vid num (batch_prompt batch) batch calls = (e, b, u, c)"
    by (metis prod_cases4)
  obtain e2 b2 u2 c2 where b: "try_block w vid num (batch_prompt batch) batch calls2 = (e2, b2, u2, c2)"
    by (metis prod_cases4)
  from try_block_steady[OF assms, of vid num batch calls calls2] a b
  have "e2 = e" "b2 = b" "u2 = u" by simp_all
  with a b show ?thesis by (simp add: step_effect_def split: option.splits)
qed

lemma step_effect_v1_steady:
  assumes "steady w p"
  shows "step_effect_v1 w p batch calls = step_effect_v1 w p batch calls2"
proof -
  obtain e b c where a: "try_block_v1 w p batch calls = (e, b, c)"
    by (metis prod_cases3)
  obtain e2 b2 c2 where b: "try_block_v1 w p batch calls2 = (e2, b2, c2)"
    by (metis prod_cases3)
  from try_block_v1_steady[OF assms, of batch calls calls2] a b
  have "e2 = e" "b2 = b" by simp_all
  with a b show ?thesis by (simp add: step_effect_v1_def split: option.splits)
qed

lemma step_effect_batch_number:
  "fst (step_effect w vid num batch calls) = fst (step_effect w vid num2 batch calls)"
  by (simp add: step_effect_def try_block_def Let_def split: sum.splits prod.splits option.splits)

lemma batch_step_effect:
  assumes "batch_step w vid bs num i st = Inr st1"
    and "step_effect w vid num (batch_comments (comments st) bs i) (api_calls st) = (B, U, F)"
  shows "comments st1 = store_batch (comments st) i B
    \<and> s3_uris st1 = s3_uris st @ U
    \<and> failed_batches st1 = failed_batches st @ F
    \<and> api_calls st1 = snd (call_openai_api w (batch_prompt (batch_comments (comments st) bs i))
                             (api_calls st))
    \<and> map other_fields B = map other_fields (batch_comments (comments st) bs i)"
proof -
  define batch where "batch = batch_comments (comments st) bs i"
  from assms(1) have keys: "\<forall>c\<in>set batch. has_prompt_keys c"
    by (auto simp: batch_step_def batch_def[symmetric] add_comments_eq Let_def split: if_splits)
  obtain exc batch' uri calls' where
    tb: "try_block w vid num (batch_prompt batch) batch (api_calls st) = (exc, batch', uri, calls')"
    by (metis prod_cases4)
  have c: "calls' = snd (call_openai_api w (batch_prompt batch) (api_calls st))"
    using tb by (rule try_block_calls)
  have of: "map other_fields batch' = map other_fields batch"
    using tb by (rule try_block_other_fields)
  show ?thesis
  proof (cases exc)
    case None
    with assms keys tb c of show ?thesis
      by (auto simp: batch_step_def batch_def[symmetric] add_comments_eq batch_prompt_def
          step_effect_def split: option.splits)
  next
    case (Some e)
    with assms keys tb c of show ?thesis
      by (auto simp: batch_step_def batch_def[symmetric] add_comments_eq batch_prompt_def
          step_effect_def other_fields_set_defaults comp_def)
  qed
qed

lemma batch_step_v1_effect:
  assumes "batch_step_v1 w bs i st = Inr st1"
    and "step_effect_v1 w (classification_prompt st
            @ prompt_lines '','' (batch_comments (comments_v1 st) bs i))
           (batch_comments (comments_v1 st) bs i) (api_calls_v1 st) = (B, F)"
  shows "comments_v1 st1 = store_batch (comments_v1 st) i B
    \<and> failed_offsets st1 = failed_offsets st @ (if F then [i] else [])
    \<and> classification_prompt st1 = classification_prompt st
          @ prompt_lines '','' (batch_comments (comments_v1 st) bs i)
    \<and> api_calls_v1 st1 = snd (call_openai_api w (classification_prompt st
            @ prompt_lines '','' (batch_comments (comments_v1 st) bs i)) (api_calls_v1 st))
    \<and> map other_fields B = map other_fields (batch_comments (comments_v1 st) bs i)"
proof -
  define batch where "batch = batch_comments (comments_v1 st) bs i"
  define p where "p = classification_prompt st @ prompt_lines '','' batch"
  from assms(1) have keys: "\<forall>c\<in>set batch. has_prompt_keys c"
    by (auto simp: batch_step_v1_def batch_def[symmetric] add_comments_eq Let_def split: if_splits)
  obtain exc batch' calls' where
    tb: "try_block_v1 w p batch (api_calls_v1 st) = (exc, batch', calls')"
    by (metis prod_cases3)
  have c: "calls' = snd (call_openai_api w p (api_calls_v1 st))"
    using tb unfolding try_block_v1_def
    by (auto simp: Let_def split: prod.splits sum.splits option.splits)
  have of: "map other_fields batch' = map other_fields batch"
    using tb by (rule try_block_v1_other_fields)
  show ?thesis
  proof (cases exc)
    case None
    with assms keys tb c of show ?thesis
      by (auto simp: batch_step_v1_def batch_def[symmetric] add_comments_eq p_def[symmetric]
          step_effect_v1_def)
  next
    case (Some e)
    with assms keys tb c of show ?thesis
      by (auto simp: batch_step_v1_def batch_def[symmetric] add_comments_eq p_def[symmetric]
          step_effect_v1_def other_fields_set_defaults comp_def)
  qed
qed

lemma batch_step_mono:
  assumes "batch_step w vid bs num i st = Inr st1"
  shows "set (api_calls st) \<subseteq> set (api_calls st1) \<and> set (s3_uris st) \<subseteq> set (s3_uris st1)
    \<and> set (failed_batches st) \<subseteq> set (failed_batches st1)"
proof -
  obtain B U F where e: "step_effect w vid num (batch_comments (comments st) bs i) (api_calls st) = (B, U, F)"
    by (metis prod_cases3)
  from batch_step_effect[OF assms e] call_openai_api_prompt_logged
  show ?thesis by auto
qed

lemma batch_loop_mono:
  "batch_loop w vid bs items st = Inr st'
   \<Longrightarrow> set (api_calls st) \<subseteq> set (api_calls st') \<and> set (s3_uris st) \<subseteq> set (s3_uris st')
     \<and> set (failed_batches st) \<subseteq> set (failed_batches st')"
proof (induction items arbitrary: st)
  case Nil
  then show ?case by simp
next
  case (Cons a items)
  obtain num i where a: "a = (num, i)" by (cases a)
  from Cons.prems obtain st1 where
    s1: "batch_step w vid bs num i st = Inr st1" and
    rest: "batch_loop w vid bs items st1 = Inr st'"
    by (auto simp: a split: sum.splits)
  from batch_step_mono[OF s1] Cons.IH[OF rest] show ?case by blast
qed

lemma batch_number_shift:
  assumes "0 < (bs::int)" "i + bs \<le> k"
  shows "Suc num + nat ((k - (i + bs)) div bs) = num + nat ((k - i) div bs)"
proof -
  have "k - i = (k - (i + bs)) + bs" by simp
  then have "(k - i) div bs = (k - (i + bs)) div bs + 1"
    using assms(1) by (simp only: div_add_self2)
  moreover have "0 \<le> (k - (i + bs)) div bs"
    using assms by (simp add: pos_imp_zdiv_nonneg_iff)
  ultimately show ?thesis by simp
qed

lemma batch_loop_batches:
  assumes "0 < bs" "0 \<le> i" "N = int (length (comments st))"
    and "batch_loop w vid bs (enumerate num (range_list i N bs)) st = Inr st'"
  shows "\<forall>k\<in>set (range_list i N bs).
      batch_prompt (batch_comments (comments st) bs k) \<in> set (api_calls st')
      \<and> (steady w (batch_prompt (batch_comments (comments st) bs k)) \<longrightarrow>
           (case step_effect w vid (num + nat ((k - i) div bs)) (batch_comments (comments st) bs k) [] of
              (B, U, F) \<Rightarrow> batch_comments (comments st') bs k = B
                 \<and> set U \<subseteq> set (s3_uris st') \<and> set F \<subseteq> set (failed_batches st')))"
  using assms
proof (induction i N bs arbitrary: st num rule: range_list.induct)
  case (1 i stop step)
  show ?case
  proof (cases "i < stop")
    case False
    with "1.prems" have e: "range_list i stop step = []" by (simp add: range_list_empty)
    then show ?thesis by simp
  next
    case True
    define cs where "cs = comments st"
    have unf: "range_list i stop step = i # range_list (i + step) stop step"
      using "1.prems"(1) True by (rule range_list_unfold)
    from "1.prems"(4) obtain st1 where
      s1: "batch_step w vid step num i st = Inr st1" and
      rest: "batch_loop w vid step (enumerate (Suc num) (range_list (i + step) stop step)) st1 = Inr st'"
      by (auto simp: unf split: sum.splits)
    obtain B U F where e: "step_effect w vid num (batch_comments cs step i) (api_calls st) = (B, U, F)"
      by (metis prod_cases3)
    from batch_step_effect[OF s1 e[unfolded cs_def]] have
      b: "comments st1 = store_batch cs i B" "s3_uris st1 = s3_uris st @ U"
         "failed_batches st1 = failed_batches st @ F"
         "api_calls st1 = snd (call_openai_api w (batch_prompt (batch_comments cs step i)) (api_calls st))"
         "map other_fields B = map other_fields (batch_comments cs step i)"
      unfolding cs_def by simp_all
    have lenb: "length B = length (batch_comments cs step i)"
      using b(5) by (metis length_map)
    have ilt: "i < int (length cs)" using True "1.prems"(3) by (simp add: cs_def)
    note sf = store_batch_facts[OF "1.prems"(1) "1.prems"(2) ilt lenb]
    have len1: "stop = int (length (comments st1))"
      using sf(1) "1.prems"(3) by (simp add: b(1) cs_def)
    have ipos: "0 \<le> i + step" using "1.prems"(1,2) by simp
    note mono = batch_loop_mono[OF rest]
    note res = batch_loop_result[OF "1.prems"(1) ipos len1 rest]
    have IH: "\<forall>k\<in>set (range_list (i + step) stop step).
      batch_prompt (batch_comments (comments st1) step k) \<in> set (api_calls st')
      \<and> (steady w (batch_prompt (batch_comments (comments st1) step k)) \<longrightarrow>
           (case step_effect w vid (Suc num + nat ((k - (i + step)) div step))
                   (batch_comments (comments st1) step k) [] of
              (B, U, F) \<Rightarrow> batch_comments (comments st') step k = B
                 \<and> set U \<subseteq> set (s3_uris st') \<and> set F \<subseteq> set (failed_batches st')))"
      using "1.IH"[OF _ "1.prems"(1) ipos len1 rest] True "1.prems"(1) by simp
    have here: "batch_prompt (batch_comments cs step i) \<in> set (api_calls st')
      \<and> (steady w (batch_prompt (batch_comments cs step i)) \<longrightarrow>
           (case step_effect w vid (num + nat ((i - i) div step)) (batch_comments cs step i) [] of
              (B, U, F) \<Rightarrow> batch_comments (comments st') step i = B
                 \<and> set U \<subseteq> set (s3_uris st') \<and> set F \<subseteq> set (failed_batches st')))"
    proof
      have "batch_prompt (batch_comments cs step i) \<in> set (api_calls st1)"
        using call_openai_api_prompt_logged by (simp add: b(4))
      with mono show "batch_prompt (batch_comments cs step i) \<in> set (api_calls st')" by blast
    next
      have "batch_comments (comments st') step i = batch_comments (comments st1) step i"
        using res by (intro batch_comments_cong_take[OF "1.prems"(1) "1.prems"(2)]) simp
      then have bb: "batch_comments (comments st') step i = B" using sf(4) by (simp add: b(1))
      have uu: "set U \<subseteq> set (s3_uris st')" "set F \<subseteq> set (failed_batches st')"
        using mono b(2,3) by auto
      show "steady w (batch_prompt (batch_comments cs step i)) \<longrightarrow>
           (case step_effect w vid (num + nat ((i - i) div step)) (batch_comments cs step i) [] of
              (B, U, F) \<Rightarrow> batch_comments (comments st') step i = B
                 \<and> set U \<subseteq> set (s3_uris st') \<and> set F \<subseteq> set (failed_batches st'))"
      proof
        assume "steady w (batch_prompt (batch_comments cs step i))"
        from step_effect_steady[OF this, of vid num "[]" "api_calls st"] e
        have "step_effect w vid num (batch_comments cs step i) [] = (B, U, F)" by simp
        with bb uu show "case step_effect w vid (num + nat ((i - i) div step)) (batch_comments cs step i) [] of
              (B, U, F) \<Rightarrow> batch_comments (comments st') step i = B
                 \<and> set U \<subseteq> set (s3_uris st') \<and> set F \<subseteq> set (failed_batches st')"
          by simp
      qed
    qed
    have later: "batch_prompt (batch_comments cs step k) \<in> set (api_calls st')
      \<and> (steady w (batch_prompt (batch_comments cs step k)) \<longrightarrow>
           (case step_effect w vid (num + nat ((k - i) div step)) (batch_comments cs step k) [] of
              (B, U, F) \<Rightarrow> batch_comments (comments st') step k = B
                 \<and> set U \<subseteq> set (s3_uris st') \<and> set F \<subseteq> set (failed_batches st')))"
      if k: "k \<in> set (range_list (i + step) stop step)" for k
    proof -
      from k have ge: "i + step \<le> k"
        using range_list_member[OF "1.prems"(1)] by blast
      have same: "batch_comments (comments st1) step k = batch_comments cs step k"
        using sf(3) by (intro batch_comments_cong_drop[OF "1.prems"(1) ipos ge]) (simp add: b(1))
      have n: "Suc num + nat ((k - (i + step)) div step) = num + nat ((k - i) div step)"
        using "1.prems"(1) ge by (rule batch_number_shift)
      from IH k have "batch_prompt (batch_comments (comments st1) step k) \<in> set (api_calls st')
      \<and> (steady w (batch_prompt (batch_comments (comments st1) step k)) \<longrightarrow>
           (case step_effect w vid (Suc num + nat ((k - (i + step)) div step))
                   (batch_comments (comments st1) step k) [] of
              (B, U, F) \<Rightarrow> batch_comments (comments st') step k = B
                 \<and> set U \<subseteq> set (s3_uris st') \<and> set F \<subseteq> set (failed_batches st')))"
        by (rule bspec)
      then show ?thesis unfolding same n .
    qed
    from here later show ?thesis unfolding cs_def[symmetric] unf by simp
  qed
qed

lemma batch_step_v1_mono:
  assumes "batch_step_v1 w bs i st = Inr st1"
  shows "set (api_calls_v1 st) \<subseteq> set (api_calls_v1 st1)
    \<and> set (failed_offsets st) \<subseteq> set (failed_offsets st1)"
proof -
  obtain B F where e: "step_effect_v1 w (classification_prompt st
            @ prompt_lines '','' (batch_comments (comments_v1 st) bs i))
           (batch_comments (comments_v1 st) bs i) (api_calls_v1 st) = (B, F)"
    by (metis prod.exhaust)
  from batch_step_v1_effect[OF assms e] call_openai_api_prompt_logged
  show ?thesis by auto
qed

lemma batch_loop_v1_mono:
  "batch_loop_v1 w bs items st = Inr st'
   \<Longrightarrow> set (api_calls_v1 st) \<subseteq> set (api_calls_v1 st')
     \<and> set (failed_offsets st) \<subseteq> set (failed_offsets st')"
proof (induction items arbitrary: st)
  case Nil
  then show ?case by simp
next
  case (Cons i items)
  from Cons.prems obtain st1 where
    s1: "batch_step_v1 w bs i st = Inr st1" and
    rest: "batch_loop_v1 w bs items st1 = Inr st'"
    by (auto split: sum.splits)
  from batch_step_v1_mono[OF s1] Cons.IH[OF rest] show ?case by blast
qed

lemma batch_loop_v1_batches:
  assumes "0 < bs" "0 \<le> i" "N = int (length (comments_v1 st))"
    and "batch_loop_v1 w bs (range_list i N bs) st = Inr st'"
  shows "\<forall>k\<in>set (range_list i N bs).
      classification_prompt st
        @ prompt_lines '','' (take (nat (k + bs) - nat i) (drop (nat i) (comments_v1 st)))
        \<in> set (api_calls_v1 st')
      \<and> (steady w (classification_prompt st
            @ prompt_lines '','' (take (nat (k + bs) - nat i) (drop (nat i) (comments_v1 st)))) \<longrightarrow>
           (case step_effect_v1 w (classification_prompt st
                    @ prompt_lines '','' (take (nat (k + bs) - nat i) (drop (nat i) (comments_v1 st))))
                   (batch_comments (comments_v1 st) bs k) [] of
              (B, F) \<Rightarrow> batch_comments (comments_v1 st') bs k = B
                 \<and> (F \<longrightarrow> k \<in> set (failed_offsets st'))))"
  using assms
proof (induction i N bs arbitrary: st rule: range_list.induct)
  case (1 i stop step)
  show ?case
  proof (cases "i < stop")
    case False
    with "1.prems" have e: "range_list i stop step = []" by (simp add: range_list_empty)
    then show ?thesis by simp
  next
    case True
    define cs where "cs = comments_v1 st"
    define P where "P = (\<lambda>k. classification_prompt st
        @ prompt_lines '','' (take (nat (k + step) - nat i) (drop (nat i) cs)))"
    have unf: "range_list i stop step = i # range_list (i + step) stop step"
      using "1.prems"(1) True by (rule range_list_unfold)
    from "1.prems"(4) obtain st1 where
      s1: "batch_step_v1 w step i st = Inr st1" and
      rest: "batch_loop_v1 w step (range_list (i + step) stop step) st1 = Inr st'"
      by (auto simp: unf split: sum.splits)
    have bc: "batch_comments cs step i = take (nat step) (drop (nat i) cs)"
      using "1.prems"(1,2) by (simp add: batch_comments_take_drop)
    have ns: "nat (i + step) - nat i = nat step" using "1.prems"(1,2) by simp
    then have Pi: "P i = classification_prompt st @ prompt_lines '','' (batch_comments cs step i)"
      by (simp add: P_def bc)
    obtain B F where e: "step_effect_v1 w (P i) (batch_comments cs step i) (api_calls_v1 st) = (B, F)"
      by (metis prod.exhaust)
    from batch_step_v1_effect[OF s1 e[unfolded Pi cs_def]] have
      b: "comments_v1 st1 = store_batch cs i B"
         "failed_offsets st1 = failed_offsets st @ (if F then [i] else [])"
         "classification_prompt st1 = P i"
         "api_calls_v1 st1 = snd (call_openai_api w (P i) (api_calls_v1 st))"
         "map other_fields B = map other_fields (batch_comments cs step i)"
      unfolding cs_def[symmetric] Pi[symmetric] by simp_all
    have lenb: "length B = length (batch_comments cs step i)"
      using b(5) by (metis length_map)
    have ilt: "i < int (length cs)" using True "1.prems"(3) by (simp add: cs_def)
    note sf = store_batch_facts[OF "1.prems"(1) "1.prems"(2) ilt lenb]
    have len1: "stop = int (length (comments_v1 st1))"
      using sf(1) "1.prems"(3) by (simp add: b(1) cs_def)
    have ipos: "0 \<le> i + step" using "1.prems"(1,2) by simp
    note mono = batch_loop_v1_mono[OF rest]
    note res = batch_loop_v1_result[OF "1.prems"(1) ipos len1 rest]
    define P1 where "P1 = (\<lambda>k. classification_prompt st1
        @ prompt_lines '','' (take (nat (k + step) - nat (i + step))
                                (drop (nat (i + step)) (comments_v1 st1))))"
    have IH: "\<forall>k\<in>set (range_list (i + step) stop step).
      P1 k \<in> set (api_calls_v1 st')
      \<and> (steady w (P1 k) \<longrightarrow>
           (case step_effect_v1 w (P1 k) (batch_comments (comments_v1 st1) step k) [] of
              (B, F) \<Rightarrow> batch_comments (comments_v1 st') step k = B
                 \<and> (F \<longrightarrow> k \<in> set (failed_offsets st'))))"
      using "1.IH"[OF _ "1.prems"(1) ipos len1 rest] True "1.prems"(1) unfolding P1_def by simp
    have here: "P i \<in> set (api_calls_v1 st')
      \<and> (steady w (P i) \<longrightarrow>
           (case step_effect_v1 w (P i) (batch_comments cs step i) [] of
              (B, F) \<Rightarrow> batch_comments (comments_v1 st') step i = B
                 \<and> (F \<longrightarrow> i \<in> set (failed_offsets st'))))"
    proof
      have "P i \<in> set (api_calls_v1 st1)"
        using call_openai_api_prompt_logged by (simp add: b(4))
      with mono show "P i \<in> set (api_calls_v1 st')" by blast
    next
      have "batch_comments (comments_v1 st') step i = batch_comments (comments_v1 st1) step i"
        using res by (intro batch_comments_cong_take[OF "1.prems"(1) "1.prems"(2)]) simp
      then have bb: "batch_comments (comments_v1 st') step i = B" using sf(4) by (simp add: b(1))
      have ff: "F \<longrightarrow> i \<in> set (failed_offsets st')"
        using mono b(2) by auto
      show "steady w (P i) \<longrightarrow>
           (case step_effect_v1 w (P i) (batch_comments cs step i) [] of
              (B, F) \<Rightarrow> batch_comments (comments_v1 st') step i = B
                 \<and> (F \<longrightarrow> i \<in> set (failed_offsets st')))"
      proof
        assume "steady w (P i)"
        from step_effect_v1_steady[OF this, of "batch_comments cs step i" "[]" "api_calls_v1 st"] e
        have "step_effect_v1 w (P i) (batch_comments cs step i) [] = (B, F)" by simp
        with bb ff show "case step_effect_v1 w (P i) (batch_comments cs step i) [] of
              (B, F) \<Rightarrow> batch_comments (comments_v1 st') step i = B
                 \<and> (F \<longrightarrow> i \<in> set (failed_offsets st'))"
          by simp
      qed
    qed
    have later: "P k \<in> set (api_calls_v1 st')
      \<and> (steady w (P k) \<longrightarrow>
           (case step_effect_v1 w (P k) (batch_comments cs step k) [] of
              (B, F) \<Rightarrow> batch_comments (comments_v1 st') step k = B
                 \<and> (F \<longrightarrow> k \<in> set (failed_offsets st'))))"
      if k: "k \<in> set (range_list (i + step) stop step)" for k
    proof -
      from k have ge: "i + step \<le> k"
        using range_list_member[OF "1.prems"(1)] by blast
      have same: "batch_comments (comments_v1 st1) step k = batch_comments cs step k"
        using sf(3) by (intro batch_comments_cong_drop[OF "1.prems"(1) ipos ge]) (simp add: b(1))
      have n: "nat (k + step) - nat i = nat step + (nat (k + step) - nat (i + step))"
        using ge "1.prems"(1,2) by simp
      have "take (nat (k + step) - nat i) (drop (nat i) cs)
          = take (nat step) (drop (nat i) cs)
            @ take (nat (k + step) - nat (i + step)) (drop (nat step) (drop (nat i) cs))"
        unfolding n by (rule take_add)
      also have "drop (nat step) (drop (nat i) cs) = drop (nat (i + step)) (comments_v1 st1)"
        using sf(3) "1.prems"(1,2) by (simp add: b(1) nat_add_distrib add.commute)
      finally have PP: "P1 k = P k"
        by (simp add: P_def P1_def b(3) bc ns prompt_lines_append)
      from IH k have "P1 k \<in> set (api_calls_v1 st')
      \<and> (steady w (P1 k) \<longrightarrow>
           (case step_effect_v1 w (P1 k) (batch_comments (comments_v1 st1) step k) [] of
              (B, F) \<Rightarrow> batch_comments (comments_v1 st') step k = B
                 \<and> (F \<longrightarrow> k \<in> set (failed_offsets st'))))"
        by (rule bspec)
      then show ?thesis unfolding same PP .
    qed
    from here later show ?thesis unfolding cs_def[symmetric] P_def[symmetric] unf
      by (simp add: P_def)
  qed
qed

lemma batch_subset:
  assumes "0 < bs" "0 \<le> k"
  shows "set (batch_comments cs bs k) \<subseteq> set cs"
  using assms by (auto simp: batch_comments_take_drop dest: in_set_takeD in_set_dropD)

lemma upgrade_batches:
  assumes "0 < bs" "\<forall>c\<in>set cs. has_prompt_keys c"
    and k: "k \<in> set (range_list 0 (int (length cs)) bs)"
    and r: "classify_and_upload_comments w cs vid bs calls = Inr st'"
  shows "batch_prompt (batch_comments cs bs k) \<in> set (api_calls st')
      \<and> (steady w (batch_prompt (batch_comments cs bs k)) \<longrightarrow>
          (\<exists>st_k. batch_step w vid bs (Suc (nat (k div bs))) k
                     \<lparr>comments = cs, s3_uris = [], api_calls = calls, failed_batches = []\<rparr> = Inr st_k
             \<and> batch_comments (comments st') bs k = batch_comments (comments st_k) bs k
             \<and> set (s3_uris st_k) \<subseteq> set (s3_uris st')
             \<and> set (failed_batches st_k) \<subseteq> set (failed_batches st')))"
proof -
  define st0 where "st0 = \<lparr>comments = cs, s3_uris = [], api_calls = calls, failed_batches = []\<rparr>"
  define batch where "batch = batch_comments cs bs k"
  define num where "num = Suc (nat (k div bs))"
  have c0: "comments st0 = cs" "s3_uris st0 = []" "api_calls st0 = calls" "failed_batches st0 = []"
    by (simp_all add: st0_def)
  have N: "int (length cs) = int (length (comments st0))" by (simp add: c0)
  from r have l: "batch_loop w vid bs (enumerate 1 (range_list 0 (int (length cs)) bs)) st0 = Inr st'"
    using classify_and_upload_comments_loop[OF assms(1), of w cs vid calls] by (simp add: st0_def)
  from range_list_member[OF assms(1) k] have kb: "0 \<le> k" "k < int (length cs)" by simp_all
  obtain B U F where e: "step_effect w vid num batch [] = (B, U, F)" by (metis prod_cases3)
  from bspec[OF batch_loop_batches[OF assms(1) order_refl N l] k]
  have p: "batch_prompt batch \<in> set (api_calls st')"
    and s: "steady w (batch_prompt batch) \<longrightarrow>
       batch_comments (comments st') bs k = B \<and> set U \<subseteq> set (s3_uris st')
       \<and> set F \<subseteq> set (failed_batches st')"
    using e by (simp_all add: c0 batch_def num_def)
  have "\<exists>st_k. batch_step w vid bs num k st0 = Inr st_k
             \<and> batch_comments (comments st') bs k = batch_comments (comments st_k) bs k
             \<and> set (s3_uris st_k) \<subseteq> set (s3_uris st')
             \<and> set (failed_batches st_k) \<subseteq> set (failed_batches st')"
    if sd: "steady w (batch_prompt batch)"
  proof -
    have "\<forall>c\<in>set (batch_comments (comments st0) bs k). has_prompt_keys c"
      using batch_subset[OF assms(1) kb(1), of cs] assms(2) by (auto simp: c0)
    from batch_step_total[OF this] obtain st_k where
      sk: "batch_step w vid bs num k st0 = Inr st_k" by blast
    have e': "step_effect w vid num (batch_comments (comments st0) bs k) (api_calls st0) = (B, U, F)"
      using step_effect_steady[OF sd, of vid num calls "[]"] e by (simp add: c0 batch_def)
    from batch_step_effect[OF sk e'] have
      b: "comments st_k = store_batch cs k B" "s3_uris st_k = U" "failed_batches st_k = F"
         "map other_fields B = map other_fields batch"
      by (simp_all add: c0 batch_def)
    have lenb: "length B = length (batch_comments cs bs k)"
      using b(4) unfolding batch_def by (metis length_map)
    have "batch_comments (comments st_k) bs k = B"
      using store_batch_facts(4)[OF assms(1) kb(1) kb(2) lenb] by (simp add: b(1))
    with sk s sd b show ?thesis by auto
  qed
  with p show ?thesis unfolding batch_def num_def st0_def by blast
qed

lemma v1_batches:
  assumes "0 < bs" "\<forall>c\<in>set cs. has_prompt_keys c"
    and k: "k \<in> set (range_list 0 (int (length cs)) bs)"
    and r: "classify_comments w cs bs calls = Inr st'"
  shows "batch_prompt_v1 cs bs k \<in> set (api_calls_v1 st')
      \<and> (steady w (batch_prompt_v1 cs bs k) \<longrightarrow>
          (\<exists>st_k. batch_step_v1 w bs k
                     \<lparr>comments_v1 = cs,
                      classification_prompt = [Lit classification_prompt_v1]
                         @ prompt_lines '','' (take (nat k) cs),
                      api_calls_v1 = calls, failed_offsets = []\<rparr> = Inr st_k
             \<and> batch_comments (comments_v1 st') bs k = batch_comments (comments_v1 st_k) bs k
             \<and> set (failed_offsets st_k) \<subseteq> set (failed_offsets st')))"
proof -
  define st0 where "st0 = \<lparr>comments_v1 = cs, classification_prompt = [Lit classification_prompt_v1],
        api_calls_v1 = calls, failed_offsets = []\<rparr>"
  define stk where "stk = \<lparr>comments_v1 = cs,
        classification_prompt = [Lit classification_prompt_v1] @ prompt_lines '','' (take (nat k) cs),
        api_calls_v1 = calls, failed_offsets = []\<rparr>"
  define batch where "batch = batch_comments cs bs k"
  define P where "P = batch_prompt_v1 cs bs k"
  have c0: "comments_v1 st0 = cs" "classification_prompt st0 = [Lit classification_prompt_v1]"
    by (simp_all add: st0_def)
  have ck: "comments_v1 stk = cs" "api_calls_v1 stk = calls" "failed_offsets stk = []"
    "classification_prompt stk = [Lit classification_prompt_v1] @ prompt_lines '','' (take (nat k) cs)"
    by (simp_all add: stk_def)
  have N: "int (length cs) = int (length (comments_v1 st0))" by (simp add: c0)
  from r have l: "batch_loop_v1 w bs (range_list 0 (int (length cs)) bs) st0 = Inr st'"
    using classify_comments_loop[OF assms(1), of w cs calls] by (simp add: st0_def)
  from range_list_member[OF assms(1) k] have kb: "0 \<le> k" "k < int (length cs)" by simp_all
  have bc: "batch = take (nat bs) (drop (nat k) cs)"
    using assms(1) kb by (simp add: batch_def batch_comments_take_drop)
  have "take (nat k + nat bs) cs = take (nat k) cs @ take (nat bs) (drop (nat k) cs)"
    by (rule take_add)
  then have Pk: "classification_prompt stk @ prompt_lines '','' batch = P"
    using assms(1) kb
    by (simp add: ck P_def batch_prompt_v1_def bc prompt_lines_append nat_add_distrib)
  obtain B F where e: "step_effect_v1 w P batch [] = (B, F)" by (metis prod.exhaust)
  from bspec[OF batch_loop_v1_batches[OF assms(1) order_refl N l] k]
  have p: "P \<in> set (api_calls_v1 st')"
    and s: "steady w P \<longrightarrow> batch_comments (comments_v1 st') bs k = B
       \<and> (F \<longrightarrow> k \<in> set (failed_offsets st'))"
    using e by (simp_all add: c0 batch_def P_def batch_prompt_v1_def)
  have "\<exists>st_k. batch_step_v1 w bs k stk = Inr st_k
             \<and> batch_comments (comments_v1 st') bs k = batch_comments (comments_v1 st_k) bs k
             \<and> set (failed_offsets st_k) \<subseteq> set (failed_offsets st')"
    if sd: "steady w P"
  proof -
    have "\<forall>c\<in>set (batch_comments (comments_v1 stk) bs k). has_prompt_keys c"
      using batch_subset[OF assms(1) kb(1), of cs] assms(2) by (auto simp: ck)
    from batch_step_v1_total[OF this] obtain st_k where
      sk: "batch_step_v1 w bs k stk = Inr st_k" by blast
    have e': "step_effect_v1 w (classification_prompt stk
            @ prompt_lines '','' (batch_comments (comments_v1 stk) bs k))
           (batch_comments (comments_v1 stk) bs k) (api_calls_v1 stk) = (B, F)"
      using step_effect_v1_steady[OF sd, of batch calls "[]"] e Pk
      by (simp add: ck(1,2) batch_def[symmetric])
    from batch_step_v1_effect[OF sk e'] have
      b: "comments_v1 st_k = store_batch cs k B"
         "failed_offsets st_k = (if F then [k] else [])"
         "map other_fields B = map other_fields batch"
      by (simp_all add: ck(1,3) batch_def)
    have lenb: "length B = length (batch_comments cs bs k)"
      using b(3) unfolding batch_def by (metis length_map)
    have "batch_comments (comments_v1 st_k) bs k = B"
      using store_batch_facts(4)[OF assms(1) kb(1) kb(2) lenb] by (simp add: b(1))
    with sk s sd b show ?thesis by auto
  qed
  with p show ?thesis unfolding batch_def P_def stk_def by blast
qed

lemma selective_steady: "steady (world_of selective_service) p"
  by (simp add: steady_def world_of_def selective_service_def)

lemma selective_batch_a:
  "always_raises (world_of selective_service) (batch_prompt (batch_comments [comment_a, comment_b] 1 0))"
  "always_raises (world_of selective_service) (batch_prompt_v1 [comment_a, comment_b] 1 0)"
  by (simp_all add: always_raises_def selective_service_def batch_prompt_def batch_prompt_v1_def
      prompt_lines_def eval_defs)

lemma selective_step_b:
  "batch_step (world_of selective_service) (PStr ''v'') 1 2 1
     \<lparr>comments = [comment_a, comment_b], s3_uris = [], api_calls = [], failed_batches = []\<rparr>
   = Inr \<lparr>comments = [comment_a,
            comment_b @ [(''sentiment'', PStr ''JOY''), (''positive_status'', PStr ''POSITIVE''),
                         (''comment_category'', PStr ''REACTION''),
                         (''keywords'', PList [PStr ''bye''])]],
          s3_uris = [[Lit ''s3://'', Lit ''bucket'', Lit ''/'', Lit ''classified/'', Fmt (PStr ''v''),
             Lit ''/classified_comments_'', Fmt (PStr ''v''), Lit ''_batch_'', Fmt (PInt 2), Lit ''.csv'']],
          api_calls = [[Lit classification_prompt_template, Fmt (PStr ''b''), Lit '' : '',
             Fmt (PStr ''bye''), Lit '',\<newline>'']],
          failed_batches = []\<rparr>"
  by (simp add: batch_step_def try_block_def
      classification_dict_def reconcile_comment_def validated_def save_comments_to_csv_def
      upload_comments_batch_to_s3_def truthy_def selective_service_def answer_b_def
      prompt_lines_def eval_defs)

lemma selective_step_a:
  "batch_step (world_of selective_service) (PStr ''v'') 1 1 0
     \<lparr>comments = [comment_a, comment_b], s3_uris = [], api_calls = [], failed_batches = []\<rparr>
   = Inr \<lparr>comments = [comment_a @ [(''sentiment'', PStr ''UNKNOWN''),
                         (''positive_status'', PStr ''UNKNOWN''),
                         (''comment_category'', PStr ''UNKNOWN''), (''keywords'', PList [])],
                       comment_b],
          s3_uris = [],
          api_calls = [[Lit classification_prompt_template, Fmt (PStr ''a''), Lit '' : '',
             Fmt (PStr ''hello''), Lit '',\<newline>''],
            [Lit classification_prompt_template, Fmt (PStr ''a''), Lit '' : '',
             Fmt (PStr ''hello''), Lit '',\<newline>''],
            [Lit classification_prompt_template, Fmt (PStr ''a''), Lit '' : '',
             Fmt (PStr ''hello''), Lit '',\<newline>'']],
          failed_batches = [1]\<rparr>"
  by (simp add: batch_step_def try_block_def set_defaults_def
      classification_dict_def reconcile_comment_def validated_def save_comments_to_csv_def
      upload_comments_batch_to_s3_def truthy_def selective_service_def answer_b_def
      prompt_lines_def eval_defs)

lemma selective_step_v1_b:
  "batch_step_v1 (world_of selective_service) 1 1
     \<lparr>comments_v1 = [comment_a, comment_b],
      classification_prompt = [Lit classification_prompt_v1]
          @ prompt_lines '','' (take (nat 1) [comment_a, comment_b]),
      api_calls_v1 = [], failed_offsets = []\<rparr>
   = Inr \<lparr>comments_v1 = [comment_a,
            comment_b @ [(''sentiment'', PStr ''JOY''), (''positive_status'', PStr ''POSITIVE''),
                         (''comment_category'', PStr ''REACTION''),
                         (''keywords'', PList [PStr ''bye''])]],
          classification_prompt = [Lit classification_prompt_v1, Fmt (PStr ''a''), Lit '' : '',
             Fmt (PStr ''hello''), Lit '','', Fmt (PStr ''b''), Lit '' : '', Fmt (PStr ''bye''), Lit '',''],
          api_calls_v1 = [[Lit classification_prompt_v1, Fmt (PStr ''a''), Lit '' : '',
             Fmt (PStr ''hello''), Lit '','', Fmt (PStr ''b''), Lit '' : '', Fmt (PStr ''bye''), Lit '','']],
          failed_offsets = []\<rparr>"
  by (simp add: batch_step_v1_def try_block_v1_def
      classification_dict_v1_def reconcile_comment_v1_def validated_v1_def
      selective_service_def answer_b_def prompt_lines_def eval_defs)

section \<open>Claims\<close>

text \<open>
  C3. For a positive batch size, the offsets of \<^verbatim>\<open>range(0, len(comments), batch_size)\<close>
  and the slices taken at them partition the list: the batches concatenated in order are
  the list, their number is \<open>total_batches\<close>, which is the ceiling of the length over
  the batch size, every batch but the last has exactly \<open>batch_size\<close> comments, no batch is
  empty, batch \<open>k\<close> is the contiguous slice that starts at \<open>k * batch_size\<close>, and an
  empty list has no batch.
\<close>

theorem partition_complete:
  assumes "0 < B"
  shows "\<exists>offs. py_range 0 (int (length xs)) B = Inr offs
    \<and> concat (map (batch_comments xs B) offs) = xs
    \<and> total_batches xs B = Inr (int (length offs))
    \<and> int (length offs) = \<lceil>real (length xs) / real_of_int B\<rceil>
    \<and> (\<forall>k. Suc k < length offs \<longrightarrow> length (batch_comments xs B (offs ! k)) = nat B)
    \<and> (\<forall>k < length offs. batch_comments xs B (offs ! k) \<noteq> []
          \<and> batch_comments xs B (offs ! k) = take (nat B) (drop (k * nat B) xs))
    \<and> (xs = [] \<longrightarrow> offs = [])"
proof -
  define N where "N = int (length xs)"
  define offs where "offs = range_list 0 N B"
  have r: "py_range 0 (int (length xs)) B = Inr offs"
    using assms by (simp add: py_range_def offs_def N_def)
  have c: "concat (map (batch_comments xs B) offs) = xs"
    using concat_batches_from[OF assms, of 0 xs] by (simp add: offs_def N_def)
  have len: "int (length offs) = (N + B - 1) div B"
  proof (cases "0 < N")
    case True
    then show ?thesis using range_list_length[OF assms, of 0 N] by (simp add: offs_def)
  next
    case False
    then have "N = 0" by (simp add: N_def)
    then show ?thesis using range_list_length[OF assms, of 0 N] assms
      by (simp add: offs_def div_pos_pos_trivial)
  qed
  have t: "total_batches xs B = Inr (int (length offs))"
    using assms len by (simp add: total_batches_def N_def)
  have ce: "int (length offs) = \<lceil>real (length xs) / real_of_int B\<rceil>"
    using len ceil_div[OF assms, of N] by (simp add: N_def)
  have nth: "offs ! k = int k * B \<and> int k * B < N" if "k < length offs" for k
    using range_list_nth[OF assms, of k 0 N] that by (simp add: offs_def)
  have bt: "batch_comments xs B (offs ! k) = take (nat B) (drop (k * nat B) xs)"
    if "k < length offs" for k
  proof -
    have "nat (int k * B) = k * nat B" using assms by (simp add: nat_mult_distrib)
    then show ?thesis
      using nth[OF that] assms by (simp add: batch_comments_take_drop)
  qed
  have ne: "batch_comments xs B (offs ! k) \<noteq> []" if "k < length offs" for k
  proof -
    have "int k * B < int (length xs)" using nth[OF that] by (simp add: N_def)
    then have "int (k * nat B) < int (length xs)" using assms by simp
    then have "k * nat B < length xs" by (simp only: of_nat_less_iff)
    then show ?thesis using bt[OF that] assms by simp
  qed
  have full: "length (batch_comments xs B (offs ! k)) = nat B" if "Suc k < length offs" for k
  proof -
    from that have k: "k < length offs" by simp
    have "int (Suc k) * B < int (length xs)" using nth[OF that] by (simp add: N_def)
    then have "int (k * nat B + nat B) < int (length xs)" using assms
      by (simp add: algebra_simps)
    then have "k * nat B + nat B < length xs" by (simp only: of_nat_less_iff)
    then show ?thesis using bt[OF k] by simp
  qed
  have e: "xs = [] \<longrightarrow> offs = []"
    using assms by (simp add: offs_def N_def range_list_empty)
  from r c t ce full ne bt e show ?thesis by blast
qed

theorem partition_complete_witness:
  "(0::int) < 2 \<and> (\<exists>offs. py_range 0 (int (length [1, 2, 3, 4, 5::nat])) 2 = Inr offs
    \<and> concat (map (batch_comments [1, 2, 3, 4, 5::nat] 2) offs) = [1, 2, 3, 4, 5]
    \<and> total_batches [1, 2, 3, 4, 5::nat] 2 = Inr (int (length offs))
    \<and> length offs = 3)"
  using partition_complete [of 2 "[1, 2, 3, 4, 5::nat]"]
  by (auto simp: total_batches_def)

text \<open>
  C6. \<^verbatim>\<open>call_openai_api\<close> makes one, two or three attempts and no more. When the
  first two attempts raise, whatever the exceptions are, and the third returns, the call
  returns that result after three attempts. When all three raise, the call raises after
  exactly three attempts: the caller receives tenacity's \<^verbatim>\<open>RetryError\<close> around the
  exception of the third attempt. Any exception of the first attempt is followed by a
  second attempt.
\<close>

theorem retry_bound:
  "(\<exists>n\<in>{1, 2, 3}. snd (call_openai_api w prompt calls) = calls @ replicate n prompt)
   \<and> (\<forall>e1 e2 v. attempt_at w prompt calls 0 = Inl e1 \<and> attempt_at w prompt calls 1 = Inl e2
          \<and> attempt_at w prompt calls 2 = Inr v
        \<longrightarrow> call_openai_api w prompt calls = (Inr v, calls @ replicate 3 prompt))
   \<and> (\<forall>e1 e2 e3. attempt_at w prompt calls 0 = Inl e1 \<and> attempt_at w prompt calls 1 = Inl e2
          \<and> attempt_at w prompt calls 2 = Inl e3
        \<longrightarrow> call_openai_api w prompt calls
              = (Inl (Exc RetryError (Some e3)), calls @ replicate 3 prompt))
   \<and> (\<forall>e1. attempt_at w prompt calls 0 = Inl e1
        \<longrightarrow> length calls + 2 \<le> length (snd (call_openai_api w prompt calls)))"
  using call_openai_api_cases[of w prompt calls]
  by (auto simp: attempt_at_def numeral_3_eq_3 numeral_2_eq_2 split: sum.splits)

theorem retry_bound_witness:
  "call_openai_api (world_of flaky_service) [Lit ''p''] []
     = (Inr (PDict [(''comments'', PList [])]), replicate 3 [Lit ''p''])
   \<and> call_openai_api (world_of down_service) [Lit ''p''] []
     = (Inl (Exc RetryError (Some (Exc APIError None))), replicate 3 [Lit ''p''])"
  using retry_bound [of "world_of flaky_service" "[Lit ''p'']" "[]"]
        retry_bound [of "world_of down_service" "[Lit ''p'']" "[]"]
  by (simp add: attempt_at_def world_of_def flaky_service_def down_service_def)



text \<open>
  C2. Take a positive batch size, comment records with the two prompt columns, no record
  occurring twice in the list (so that no two positions share one \<^verbatim>\<open>dict\<close> object), and the
  offset \<open>j\<close> of a batch. The run returns whatever the service does, with every comment of
  the list reconciled. If the service raises on the request of batch \<open>j\<close> at every attempt,
  every comment of that batch ends with exactly the defaults of the \<^verbatim>\<open>except\<close> branch (the
  three categorical fields \<open>''UNKNOWN''\<close>, \<open>keywords\<close> the empty list). The failure of one
  batch changes nothing for the others: the service is called with the request of every
  batch \<open>k\<close>, and wherever the service answers that request the same at every call, batch
  \<open>k\<close> ends exactly as the loop body leaves it when run on that batch alone from the
  initial state (with the batch number \<open>k div bs + 1\<close>; in the old file with the prompt
  accumulated up to \<open>k\<close>), the file that pass uploads is among the uploaded files, and the
  failure that pass records is among the recorded failures. This holds for both files. In
  any state of the loop, when \<^verbatim>\<open>call_openai_api\<close> raises for a batch, the loop body ends
  normally with the defaults stored for the whole batch and the failure recorded.
\<close>

theorem failed_batch_defaults:
  assumes "0 < bs" and "\<forall>c\<in>set cs. has_prompt_keys c" and "distinct cs"
    and "j \<in> set (range_list 0 (int (length cs)) bs)"
  shows "(\<exists>st'. classify_and_upload_comments w cs vid bs calls = Inr st'
            \<and> list_all reconciled (comments st')
            \<and> (always_raises w (batch_prompt (batch_comments cs bs j)) \<longrightarrow>
                 batch_comments (comments st') bs j = map set_defaults (batch_comments cs bs j)
                 \<and> list_all all_unknown (batch_comments (comments st') bs j))
            \<and> (\<forall>k\<in>set (range_list 0 (int (length cs)) bs).
                 batch_prompt (batch_comments cs bs k) \<in> set (api_calls st')
                 \<and> (steady w (batch_prompt (batch_comments cs bs k)) \<longrightarrow>
                      (\<exists>st_k. batch_step w vid bs (Suc (nat (k div bs))) k
                                 \<lparr>comments = cs, s3_uris = [], api_calls = calls,
                                  failed_batches = []\<rparr> = Inr st_k
                         \<and> batch_comments (comments st') bs k = batch_comments (comments st_k) bs k
                         \<and> set (s3_uris st_k) \<subseteq> set (s3_uris st')
                         \<and> set (failed_batches st_k) \<subseteq> set (failed_batches st')))))
       \<and> (\<exists>st'. classify_comments w cs bs calls = Inr st'
            \<and> list_all reconciled_v1 (comments_v1 st')
            \<and> (always_raises w (batch_prompt_v1 cs bs j) \<longrightarrow>
                 batch_comments (comments_v1 st') bs j = map set_defaults (batch_comments cs bs j)
                 \<and> list_all all_unknown (batch_comments (comments_v1 st') bs j))
            \<and> (\<forall>k\<in>set (range_list 0 (int (length cs)) bs).
                 batch_prompt_v1 cs bs k \<in> set (api_calls_v1 st')
                 \<and> (steady w (batch_prompt_v1 cs bs k) \<longrightarrow>
                      (\<exists>st_k. batch_step_v1 w bs k
                                 \<lparr>comments_v1 = cs,
                                  classification_prompt = [Lit classification_prompt_v1]
                                     @ prompt_lines '','' (take (nat k) cs),
                                  api_calls_v1 = calls, failed_offsets = []\<rparr> = Inr st_k
                         \<and> batch_comments (comments_v1 st') bs k
                             = batch_comments (comments_v1 st_k) bs k
                         \<and> set (failed_offsets st_k) \<subseteq> set (failed_offsets st')))))
       \<and> (\<forall>st num i e calls1.
            (\<forall>c\<in>set (batch_comments (comments st) bs i). has_prompt_keys c)
            \<and> call_openai_api w (batch_prompt (batch_comments (comments st) bs i)) (api_calls st)
                = (Inl e, calls1)
            \<longrightarrow> batch_step w vid bs num i st =
                  Inr (st\<lparr>comments := store_batch (comments st) i
                                         (map set_defaults (batch_comments (comments st) bs i)),
                          api_calls := calls1,
                          failed_batches := failed_batches st @ [num]\<rparr>))
       \<and> (\<forall>st i e calls1.
            (\<forall>c\<in>set (batch_comments (comments_v1 st) bs i). has_prompt_keys c)
            \<and> call_openai_api w (classification_prompt st
                   @ prompt_lines '','' (batch_comments (comments_v1 st) bs i)) (api_calls_v1 st)
                = (Inl e, calls1)
            \<longrightarrow> batch_step_v1 w bs i st =
                  Inr (st\<lparr>comments_v1 := store_batch (comments_v1 st) i
                                            (map set_defaults (batch_comments (comments_v1 st) bs i)),
                          classification_prompt := classification_prompt st
                             @ prompt_lines '','' (batch_comments (comments_v1 st) bs i),
                          api_calls_v1 := calls1,
                          failed_offsets := failed_offsets st @ [i]\<rparr>))"
proof (intro conjI allI impI)
  from upgrade_run[OF assms(1,2), of w vid calls] obtain st' where
    r: "classify_and_upload_comments w cs vid bs calls = Inr st'"
    and a: "list_all reconciled (comments st')"
    by (auto simp: list_all_iff)
  have f: "batch_comments (comments st') bs j = map set_defaults (batch_comments cs bs j)
           \<and> list_all all_unknown (batch_comments (comments st') bs j)"
    if ar: "always_raises w (batch_prompt (batch_comments cs bs j))"
  proof -
    from upgrade_failed_batch[OF assms(1,2,4) ar, of vid calls] r
    have d: "batch_comments (comments st') bs j = map set_defaults (batch_comments cs bs j)"
      by simp
    then show ?thesis by (simp add: list_all_iff all_unknown_set_defaults)
  qed
  have b: "\<forall>k\<in>set (range_list 0 (int (length cs)) bs).
                 batch_prompt (batch_comments cs bs k) \<in> set (api_calls st')
                 \<and> (steady w (batch_prompt (batch_comments cs bs k)) \<longrightarrow>
                      (\<exists>st_k. batch_step w vid bs (Suc (nat (k div bs))) k
                                 \<lparr>comments = cs, s3_uris = [], api_calls = calls,
                                  failed_batches = []\<rparr> = Inr st_k
                         \<and> batch_comments (comments st') bs k = batch_comments (comments st_k) bs k
                         \<and> set (s3_uris st_k) \<subseteq> set (s3_uris st')
                         \<and> set (failed_batches st_k) \<subseteq> set (failed_batches st')))"
    using upgrade_batches[OF assms(1,2) _ r] by blast
  from r a f b show "\<exists>st'. classify_and_upload_comments w cs vid bs calls = Inr st'
            \<and> list_all reconciled (comments st')
            \<and> (always_raises w (batch_prompt (batch_comments cs bs j)) \<longrightarrow>
                 batch_comments (comments st') bs j = map set_defaults (batch_comments cs bs j)
                 \<and> list_all all_unknown (batch_comments (comments st') bs j))
            \<and> (\<forall>k\<in>set (range_list 0 (int (length cs)) bs).
                 batch_prompt (batch_comments cs bs k) \<in> set (api_calls st')
                 \<and> (steady w (batch_prompt (batch_comments cs bs k)) \<longrightarrow>
                      (\<exists>st_k. batch_step w vid bs (Suc (nat (k div bs))) k
                                 \<lparr>comments = cs, s3_uris = [], api_calls = calls,
                                  failed_batches = []\<rparr> = Inr st_k
                         \<and> batch_comments (comments st') bs k = batch_comments (comments st_k) bs k
                         \<and> set (s3_uris st_k) \<subseteq> set (s3_uris st')
                         \<and> set (failed_batches st_k) \<subseteq> set (failed_batches st'))))"
    by (intro exI[of _ st'] conjI impI) blast+
next
  from v1_run[OF assms(1,2), of w calls] obtain st' where
    r: "classify_comments w cs bs calls = Inr st'"
    and a: "list_all reconciled_v1 (comments_v1 st')"
    by (auto simp: list_all_iff)
  have f: "batch_comments (comments_v1 st') bs j = map set_defaults (batch_comments cs bs j)
           \<and> list_all all_unknown (batch_comments (comments_v1 st') bs j)"
    if ar: "always_raises w (batch_prompt_v1 cs bs j)"
  proof -
    from v1_failed_batch[OF assms(1,2,4) ar, of calls] r
    have d: "batch_comments (comments_v1 st') bs j = map set_defaults (batch_comments cs bs j)"
      by simp
    then show ?thesis by (simp add: list_all_iff all_unknown_set_defaults)
  qed
  have b: "\<forall>k\<in>set (range_list 0 (int (length cs)) bs).
                 batch_prompt_v1 cs bs k \<in> set (api_calls_v1 st')
                 \<and> (steady w (batch_prompt_v1 cs bs k) \<longrightarrow>
                      (\<exists>st_k. batch_step_v1 w bs k
                                 \<lparr>comments_v1 = cs,
                                  classification_prompt = [Lit classification_prompt_v1]
                                     @ prompt_lines '','' (take (nat k) cs),
                                  api_calls_v1 = calls, failed_offsets = []\<rparr> = Inr st_k
                         \<and> batch_comments (comments_v1 st') bs k
                             = batch_comments (comments_v1 st_k) bs k
                         \<and> set (failed_offsets st_k) \<subseteq> set (failed_offsets st')))"
    using v1_batches[OF assms(1,2) _ r] by blast
  from r a f b show "\<exists>st'. classify_comments w cs bs calls = Inr st'
            \<and> list_all reconciled_v1 (comments_v1 st')
            \<and> (always_raises w (batch_prompt_v1 cs bs j) \<longrightarrow>
                 batch_comments (comments_v1 st') bs j = map set_defaults (batch_comments cs bs j)
                 \<and> list_all all_unknown (batch_comments (comments_v1 st') bs j))
            \<and> (\<forall>k\<in>set (range_list 0 (int (length cs)) bs).
                 batch_prompt_v1 cs bs k \<in> set (api_calls_v1 st')
                 \<and> (steady w (batch_prompt_v1 cs bs k) \<longrightarrow>
                      (\<exists>st_k. batch_step_v1 w bs k
                                 \<lparr>comments_v1 = cs,
                                  classification_prompt = [Lit classification_prompt_v1]
                                     @ prompt_lines '','' (take (nat k) cs),
                                  api_calls_v1 = calls, failed_offsets = []\<rparr> = Inr st_k
                         \<and> batch_comments (comments_v1 st') bs k
                             = batch_comments (comments_v1 st_k) bs k
                         \<and> set (failed_offsets st_k) \<subseteq> set (failed_offsets st'))))"
    by (intro exI[of _ st'] conjI impI) blast+
next
  fix st :: run_state and num i e calls1
  assume "(\<forall>c\<in>set (batch_comments (comments st) bs i). has_prompt_keys c)
            \<and> call_openai_api w (batch_prompt (batch_comments (comments st) bs i)) (api_calls st)
                = (Inl e, calls1)"
  then show "batch_step w vid bs num i st =
                  Inr (st\<lparr>comments := store_batch (comments st) i
                                         (map set_defaults (batch_comments (comments st) bs i)),
                          api_calls := calls1,
                          failed_batches := failed_batches st @ [num]\<rparr>)"
    using batch_step_call_fails by blast
next
  fix st :: run_state_v1 and i e calls1
  assume "(\<forall>c\<in>set (batch_comments (comments_v1 st) bs i). has_prompt_keys c)
            \<and> call_openai_api w (classification_prompt st
                   @ prompt_lines '','' (batch_comments (comments_v1 st) bs i)) (api_calls_v1 st)
                = (Inl e, calls1)"
  then show "batch_step_v1 w bs i st =
                  Inr (st\<lparr>comments_v1 := store_batch (comments_v1 st) i
                                            (map set_defaults (batch_comments (comments_v1 st) bs i)),
                          classification_prompt := classification_prompt st
                             @ prompt_lines '','' (batch_comments (comments_v1 st) bs i),
                          api_calls_v1 := calls1,
                          failed_offsets := failed_offsets st @ [i]\<rparr>)"
    using batch_step_v1_call_fails by blast
qed

theorem failed_batch_defaults_witness:
  "(0::int) < 1 \<and> has_prompt_keys comment_a \<and> has_prompt_keys comment_b
   \<and> distinct [comment_a, comment_b]
   \<and> 0 \<in> set (range_list 0 (int (length [comment_a, comment_b])) 1)
   \<and> 1 \<in> set (range_list 0 (int (length [comment_a, comment_b])) 1)
   \<and> always_raises (world_of selective_service)
        (batch_prompt (batch_comments [comment_a, comment_b] 1 0))
   \<and> steady (world_of selective_service)
        (batch_prompt (batch_comments [comment_a, comment_b] 1 1))
   \<and> always_raises (world_of selective_service) (batch_prompt_v1 [comment_a, comment_b] 1 0)
   \<and> steady (world_of selective_service) (batch_prompt_v1 [comment_a, comment_b] 1 1)
   \<and> (\<exists>st'. classify_and_upload_comments (world_of selective_service) [comment_a, comment_b]
               (PStr ''v'') 1 [] = Inr st'
          \<and> batch_comments (comments st') 1 0 = [set_defaults comment_a]
          \<and> batch_comments (comments st') 1 1 =
              [comment_b @ [(''sentiment'', PStr ''JOY''), (''positive_status'', PStr ''POSITIVE''),
                            (''comment_category'', PStr ''REACTION''),
                            (''keywords'', PList [PStr ''bye''])]]
          \<and> [Lit classification_prompt_template, Fmt (PStr ''b''), Lit '' : '',
              Fmt (PStr ''bye''), Lit '',\<newline>''] \<in> set (api_calls st')
          \<and> [Lit ''s3://'', Lit ''bucket'', Lit ''/'', Lit ''classified/'', Fmt (PStr ''v''),
              Lit ''/classified_comments_'', Fmt (PStr ''v''), Lit ''_batch_'', Fmt (PInt 2),
              Lit ''.csv''] \<in> set (s3_uris st')
          \<and> 1 \<in> set (failed_batches st'))
   \<and> (\<exists>st'. classify_comments (world_of selective_service) [comment_a, comment_b] 1 [] = Inr st'
          \<and> batch_comments (comments_v1 st') 1 0 = [set_defaults comment_a]
          \<and> batch_comments (comments_v1 st') 1 1 =
              [comment_b @ [(''sentiment'', PStr ''JOY''), (''positive_status'', PStr ''POSITIVE''),
                            (''comment_category'', PStr ''REACTION''),
                            (''keywords'', PList [PStr ''bye''])]])
   \<and> fst (call_openai_api (world_of selective_service) (batch_prompt [comment_a]) [])
        = Inl (Exc RetryError (Some (Exc APIError None)))
   \<and> map_sum id (\<lambda>st. (comments st, s3_uris st, failed_batches st))
        (batch_step (world_of selective_service) (PStr ''v'') 1 1 0
           \<lparr>comments = [comment_a, comment_b], s3_uris = [], api_calls = [],
            failed_batches = []\<rparr>)
        = Inr ([set_defaults comment_a, comment_b], [], [1])
   \<and> fst (call_openai_api (world_of selective_service)
             ([Lit classification_prompt_v1] @ prompt_lines '','' [comment_a]) [])
        = Inl (Exc RetryError (Some (Exc APIError None)))
   \<and> map_sum id (\<lambda>st. (comments_v1 st, failed_offsets st))
        (batch_step_v1 (world_of selective_service) 1 0
           \<lparr>comments_v1 = [comment_a, comment_b],
            classification_prompt = [Lit classification_prompt_v1],
            api_calls_v1 = [], failed_offsets = []\<rparr>)
        = Inr ([set_defaults comment_a, comment_b], [0])"
proof -
  let ?w = "world_of selective_service"
  let ?cs = "[comment_a, comment_b]"
  have k: "has_prompt_keys comment_a" "has_prompt_keys comment_b"
    by (simp_all add: has_prompt_keys_def comment_a_def comment_b_def)
  then have ks: "\<forall>c\<in>set ?cs. has_prompt_keys c" by simp
  have d: "distinct ?cs" by (simp add: comment_a_def comment_b_def)
  have j: "0 \<in> set (range_list 0 (int (length ?cs)) 1)" "1 \<in> set (range_list 0 (int (length ?cs)) 1)"
    by (simp_all add: range_list_0_2_1)
  have ba: "batch_comments ?cs 1 0 = [comment_a]"
    and bb: "batch_comments ?cs 1 1 = [comment_b]"
    by (simp_all add: batch_comments_def py_slice_def clamp_index_def)
  have pb: "batch_prompt [comment_b] = [Lit classification_prompt_template, Fmt (PStr ''b''),
      Lit '' : '', Fmt (PStr ''bye''), Lit '',\<newline>'']"
    by (simp add: batch_prompt_def prompt_lines_def eval_defs)
  have sb: "\<And>st. batch_comments [comment_a, st] 1 1 = [st]"
    and sa: "\<And>st. batch_comments [st, comment_b] 1 0 = [st]"
    by (simp_all add: batch_comments_def py_slice_def clamp_index_def)
  have n: "Suc (nat (1 div 1)) = 2" "Suc (nat (0 div 1)) = 1" by simp_all
  have z: "(0::int) < 1" by simp
  note T = failed_batch_defaults[OF z ks d j(1), of ?w "PStr ''v''" "[]"]
  have up: "\<exists>st'. classify_and_upload_comments ?w ?cs (PStr ''v'') 1 [] = Inr st'
          \<and> batch_comments (comments st') 1 0 = [set_defaults comment_a]
          \<and> batch_comments (comments st') 1 1 =
              [comment_b @ [(''sentiment'', PStr ''JOY''), (''positive_status'', PStr ''POSITIVE''),
                            (''comment_category'', PStr ''REACTION''),
                            (''keywords'', PList [PStr ''bye''])]]
          \<and> [Lit classification_prompt_template, Fmt (PStr ''b''), Lit '' : '',
              Fmt (PStr ''bye''), Lit '',\<newline>''] \<in> set (api_calls st')
          \<and> [Lit ''s3://'', Lit ''bucket'', Lit ''/'', Lit ''classified/'', Fmt (PStr ''v''),
              Lit ''/classified_comments_'', Fmt (PStr ''v''), Lit ''_batch_'', Fmt (PInt 2),
              Lit ''.csv''] \<in> set (s3_uris st')
          \<and> 1 \<in> set (failed_batches st')"
  proof -
    from T obtain st' where
      r: "classify_and_upload_comments ?w ?cs (PStr ''v'') 1 [] = Inr st'"
      and f: "always_raises ?w (batch_prompt (batch_comments ?cs 1 0)) \<longrightarrow>
                 batch_comments (comments st') 1 0 = map set_defaults (batch_comments ?cs 1 0)
                 \<and> list_all all_unknown (batch_comments (comments st') 1 0)"
      and b: "\<forall>k\<in>set (range_list 0 (int (length ?cs)) 1).
                 batch_prompt (batch_comments ?cs 1 k) \<in> set (api_calls st')
                 \<and> (steady ?w (batch_prompt (batch_comments ?cs 1 k)) \<longrightarrow>
                      (\<exists>st_k. batch_step ?w (PStr ''v'') 1 (Suc (nat (k div 1))) k
                                 \<lparr>comments = ?cs, s3_uris = [], api_calls = [],
                                  failed_batches = []\<rparr> = Inr st_k
                         \<and> batch_comments (comments st') 1 k = batch_comments (comments st_k) 1 k
                         \<and> set (s3_uris st_k) \<subseteq> set (s3_uris st')
                         \<and> set (failed_batches st_k) \<subseteq> set (failed_batches st')))"
      by blast
    from f selective_batch_a(1) have f0: "batch_comments (comments st') 1 0 = [set_defaults comment_a]"
      by (simp add: ba)
    from bspec[OF b j(2)] selective_steady obtain st1 where
      s1: "batch_step ?w (PStr ''v'') 1 (Suc (nat (1 div 1))) 1
             \<lparr>comments = ?cs, s3_uris = [], api_calls = [], failed_batches = []\<rparr> = Inr st1"
        "batch_comments (comments st') 1 1 = batch_comments (comments st1) 1 1"
        "set (s3_uris st1) \<subseteq> set (s3_uris st')"
      and p1: "batch_prompt (batch_comments ?cs 1 1) \<in> set (api_calls st')"
      by blast
    from s1(1) have e1: "comments st1 = [comment_a,
            comment_b @ [(''sentiment'', PStr ''JOY''), (''positive_status'', PStr ''POSITIVE''),
                         (''comment_category'', PStr ''REACTION''),
                         (''keywords'', PList [PStr ''bye''])]]"
        "s3_uris st1 = [[Lit ''s3://'', Lit ''bucket'', Lit ''/'', Lit ''classified/'',
             Fmt (PStr ''v''), Lit ''/classified_comments_'', Fmt (PStr ''v''), Lit ''_batch_'',
             Fmt (PInt 2), Lit ''.csv'']]"
      unfolding n(1) selective_step_b by auto
    from s1(2,3) p1 have b1: "batch_prompt [comment_b] \<in> set (api_calls st')"
      "batch_comments (comments st') 1 1 =
              [comment_b @ [(''sentiment'', PStr ''JOY''), (''positive_status'', PStr ''POSITIVE''),
                            (''comment_category'', PStr ''REACTION''),
                            (''keywords'', PList [PStr ''bye''])]]"
      "[Lit ''s3://'', Lit ''bucket'', Lit ''/'', Lit ''classified/'', Fmt (PStr ''v''),
              Lit ''/classified_comments_'', Fmt (PStr ''v''), Lit ''_batch_'', Fmt (PInt 2),
              Lit ''.csv''] \<in> set (s3_uris st')"
      unfolding e1 bb sb by simp_all
    from bspec[OF b j(1)] selective_steady obtain st0 where
      s0: "batch_step ?w (PStr ''v'') 1 (Suc (nat (0 div 1))) 0
             \<lparr>comments = ?cs, s3_uris = [], api_calls = [], failed_batches = []\<rparr> = Inr st0"
        "set (failed_batches st0) \<subseteq> set (failed_batches st')"
      by blast
    from s0(1) have "failed_batches st0 = [1]"
      unfolding n(2) selective_step_a by auto
    with s0(2) have b0: "1 \<in> set (failed_batches st')" by simp
    from r f0 b1 b0 show ?thesis by (simp add: pb)
  qed
  have old: "\<exists>st'. classify_comments ?w ?cs 1 [] = Inr st'
          \<and> batch_comments (comments_v1 st') 1 0 = [set_defaults comment_a]
          \<and> batch_comments (comments_v1 st') 1 1 =
              [comment_b @ [(''sentiment'', PStr ''JOY''), (''positive_status'', PStr ''POSITIVE''),
                            (''comment_category'', PStr ''REACTION''),
                            (''keywords'', PList [PStr ''bye''])]]"
  proof -
    from T obtain st' where
      r: "classify_comments ?w ?cs 1 [] = Inr st'"
      and f: "always_raises ?w (batch_prompt_v1 ?cs 1 0) \<longrightarrow>
                 batch_comments (comments_v1 st') 1 0 = map set_defaults (batch_comments ?cs 1 0)
                 \<and> list_all all_unknown (batch_comments (comments_v1 st') 1 0)"
      and b: "\<forall>k\<in>set (range_list 0 (int (length ?cs)) 1).
                 batch_prompt_v1 ?cs 1 k \<in> set (api_calls_v1 st')
                 \<and> (steady ?w (batch_prompt_v1 ?cs 1 k) \<longrightarrow>
                      (\<exists>st_k. batch_step_v1 ?w 1 k
                                 \<lparr>comments_v1 = ?cs,
                                  classification_prompt = [Lit classification_prompt_v1]
                                     @ prompt_lines '','' (take (nat k) ?cs),
                                  api_calls_v1 = [], failed_offsets = []\<rparr> = Inr st_k
                         \<and> batch_comments (comments_v1 st') 1 k
                             = batch_comments (comments_v1 st_k) 1 k
                         \<and> set (failed_offsets st_k) \<subseteq> set (failed_offsets st')))"
      by blast
    from f selective_batch_a(2) have f0: "batch_comments (comments_v1 st') 1 0 = [set_defaults comment_a]"
      by (simp add: ba)
    from bspec[OF b j(2)] selective_steady obtain st1 where
      s1: "batch_step_v1 ?w 1 1
             \<lparr>comments_v1 = ?cs,
              classification_prompt = [Lit classification_prompt_v1]
                 @ prompt_lines '','' (take (nat 1) ?cs),
              api_calls_v1 = [], failed_offsets = []\<rparr> = Inr st1"
        "batch_comments (comments_v1 st') 1 1 = batch_comments (comments_v1 st1) 1 1"
      by blast
    from s1(1) have e1: "comments_v1 st1 = [comment_a,
            comment_b @ [(''sentiment'', PStr ''JOY''), (''positive_status'', PStr ''POSITIVE''),
                         (''comment_category'', PStr ''REACTION''),
                         (''keywords'', PList [PStr ''bye''])]]"
      unfolding selective_step_v1_b by auto
    from s1(2) have b1: "batch_comments (comments_v1 st') 1 1 =
              [comment_b @ [(''sentiment'', PStr ''JOY''), (''positive_status'', PStr ''POSITIVE''),
                            (''comment_category'', PStr ''REACTION''),
                            (''keywords'', PList [PStr ''bye''])]]"
      unfolding e1 sb by simp
    from r f0 b1 show ?thesis by simp
  qed
  let ?st = "\<lparr>comments = ?cs, s3_uris = [], api_calls = [], failed_batches = []\<rparr>"
  let ?st1 = "\<lparr>comments_v1 = ?cs, classification_prompt = [Lit classification_prompt_v1],
                api_calls_v1 = [], failed_offsets = []\<rparr>"
  let ?e = "Exc RetryError (Some (Exc APIError None))"
  obtain c1 where c1: "call_openai_api ?w (batch_prompt [comment_a]) [] = (Inl ?e, c1)"
    by (simp add: selective_service_def batch_prompt_def prompt_lines_def eval_defs)
  obtain c2 where c2: "call_openai_api ?w ([Lit classification_prompt_v1]
        @ prompt_lines '','' [comment_a]) [] = (Inl ?e, c2)"
    by (simp add: selective_service_def prompt_lines_def eval_defs)
  have sd: "store_batch ?cs 0 [set_defaults comment_a] = [set_defaults comment_a, comment_b]"
    by (simp add: store_batch_def)
  from conjunct1[OF conjunct2[OF conjunct2[OF T]]]
  have "(\<forall>c\<in>set (batch_comments (comments ?st) 1 0). has_prompt_keys c)
            \<and> call_openai_api ?w (batch_prompt (batch_comments (comments ?st) 1 0)) (api_calls ?st)
                = (Inl ?e, c1)
            \<longrightarrow> batch_step ?w (PStr ''v'') 1 1 0 ?st =
                  Inr (?st\<lparr>comments := store_batch (comments ?st) 0
                                         (map set_defaults (batch_comments (comments ?st) 1 0)),
                          api_calls := c1,
                          failed_batches := failed_batches ?st @ [1]\<rparr>)"
    by blast
  with k c1 have s3: "map_sum id (\<lambda>st. (comments st, s3_uris st, failed_batches st))
        (batch_step ?w (PStr ''v'') 1 1 0 ?st) = Inr ([set_defaults comment_a, comment_b], [], [1])"
    by (simp add: ba sd)
  from conjunct2[OF conjunct2[OF conjunct2[OF T]]]
  have "(\<forall>c\<in>set (batch_comments (comments_v1 ?st1) 1 0). has_prompt_keys c)
            \<and> call_openai_api ?w (classification_prompt ?st1
                   @ prompt_lines '','' (batch_comments (comments_v1 ?st1) 1 0)) (api_calls_v1 ?st1)
                = (Inl ?e, c2)
            \<longrightarrow> batch_step_v1 ?w 1 0 ?st1 =
                  Inr (?st1\<lparr>comments_v1 := store_batch (comments_v1 ?st1) 0
                                            (map set_defaults (batch_comments (comments_v1 ?st1) 1 0)),
                          classification_prompt := classification_prompt ?st1
                             @ prompt_lines '','' (batch_comments (comments_v1 ?st1) 1 0),
                          api_calls_v1 := c2,
                          failed_offsets := failed_offsets ?st1 @ [0]\<rparr>)"
    by blast
  with k c2 have s4: "map_sum id (\<lambda>st. (comments_v1 st, failed_offsets st))
        (batch_step_v1 ?w 1 0 ?st1) = Inr ([set_defaults comment_a, comment_b], [0])"
    by (simp add: ba sd)
  from c1 c2 have cc: "fst (call_openai_api ?w (batch_prompt [comment_a]) []) = Inl ?e"
    "fst (call_openai_api ?w ([Lit classification_prompt_v1]
        @ prompt_lines '','' [comment_a]) []) = Inl ?e" by simp_all
  from k d j selective_batch_a selective_steady up old cc s3 s4 show ?thesis
    by (intro conjI) simp_all
qed

text \<open>
  C7. Whenever a run returns, for any batch size and any answers of the service, the
  comment list it leaves has the length of the input and, at every position, the same
  \<open>comment_id\<close> as the input, the same record apart from the classification fields, and
  the same value under every key other than \<open>sentiment\<close>, \<open>positive_status\<close>,
  \<open>comment_category\<close> and \<open>keywords\<close>. This holds for both files.
\<close>

theorem identifier_preservation:
  "(classify_and_upload_comments w cs vid bs calls = Inr st' \<longrightarrow>
      length (comments st') = length cs
      \<and> (\<forall>n<length cs. map_of (comments st' ! n) ''comment_id'' = map_of (cs ! n) ''comment_id''
            \<and> other_fields (comments st' ! n) = other_fields (cs ! n)
            \<and> (\<forall>k. k \<notin> set classification_fields
                  \<longrightarrow> map_of (comments st' ! n) k = map_of (cs ! n) k)))
   \<and> (classify_comments w cs bs calls = Inr st1 \<longrightarrow>
      length (comments_v1 st1) = length cs
      \<and> (\<forall>n<length cs. map_of (comments_v1 st1 ! n) ''comment_id'' = map_of (cs ! n) ''comment_id''
            \<and> other_fields (comments_v1 st1 ! n) = other_fields (cs ! n)
            \<and> (\<forall>k. k \<notin> set classification_fields
                  \<longrightarrow> map_of (comments_v1 st1 ! n) k = map_of (cs ! n) k)))"
  using frame_of_map[OF upgrade_frame, of w cs vid bs calls st']
        frame_of_map[OF v1_frame, of w cs bs calls st1]
  by blast

theorem identifier_preservation_witness:
  "\<exists>st' st1. classify_and_upload_comments (world_of empty_answer_service) [comment_a, comment_b]
                (PStr ''v'') 1 [] = Inr st'
     \<and> classify_comments (world_of empty_answer_service) [comment_a, comment_b] 1 [] = Inr st1
     \<and> length (comments st') = 2 \<and> length (comments_v1 st1) = 2
     \<and> map_of (comments st' ! 0) ''comment_id'' = Some (PStr ''a'')
     \<and> map_of (comments st' ! 1) ''comment_id'' = Some (PStr ''b'')
     \<and> map_of (comments_v1 st1 ! 0) ''text_display'' = Some (PStr ''hello'')
     \<and> map_of (comments_v1 st1 ! 1) ''comment_id'' = Some (PStr ''b'')"
proof -
  have k: "\<forall>c\<in>set [comment_a, comment_b]. has_prompt_keys c"
    by (simp add: has_prompt_keys_def comment_a_def comment_b_def)
  from upgrade_run[OF _ k, of 1 "world_of empty_answer_service" "PStr ''v''" "[]"] obtain st' where
    r: "classify_and_upload_comments (world_of empty_answer_service) [comment_a, comment_b]
                (PStr ''v'') 1 [] = Inr st'" by auto
  from v1_run[OF _ k, of 1 "world_of empty_answer_service" "[]"] obtain st1 where
    r1: "classify_comments (world_of empty_answer_service) [comment_a, comment_b] 1 [] = Inr st1"
    by auto
  have t: "''text_display'' \<notin> set classification_fields" by (simp add: classification_fields_def)
  from identifier_preservation[of "world_of empty_answer_service" "[comment_a, comment_b]"
      "PStr ''v''" 1 "[]" st' st1] r r1 t
  have "length (comments st') = 2 \<and> length (comments_v1 st1) = 2
     \<and> map_of (comments st' ! 0) ''comment_id'' = Some (PStr ''a'')
     \<and> map_of (comments st' ! 1) ''comment_id'' = Some (PStr ''b'')
     \<and> map_of (comments_v1 st1 ! 0) ''text_display'' = Some (PStr ''hello'')
     \<and> map_of (comments_v1 st1 ! 1) ''comment_id'' = Some (PStr ''b'')"
    by (simp add: comment_a_def comment_b_def)
  with r r1 show ?thesis by blast
qed

text \<open>
  C4. The run of the old file on two comments, with a service that answers without any
  result: no result is there for either \<open>comment_id\<close>, and the three categorical fields
  are set to the empty string, not to the sentinel; \<open>keywords\<close> is the empty list. The
  upgraded file, on the same input, sets the sentinel \<open>''UNKNOWN''\<close> (in general:
  \<open>reconcile_comment_fields\<close>, \<open>validated_unknown\<close>, \<open>validated_member\<close>).
\<close>

theorem old_file_blank_fields:
  "map_sum id comments_v1
     (classify_comments (world_of empty_answer_service) [comment_a, comment_b] 1 [])
   = Inr [comment_a @ [(''sentiment'', PStr []), (''positive_status'', PStr []),
                       (''comment_category'', PStr []), (''keywords'', PList [])],
          comment_b @ [(''sentiment'', PStr []), (''positive_status'', PStr []),
                       (''comment_category'', PStr []), (''keywords'', PList [])]]
   \<and> map_sum id comments
     (classify_and_upload_comments (world_of empty_answer_service) [comment_a, comment_b]
        (PStr ''v'') 1 [])
   = Inr [comment_a @ [(''sentiment'', PStr ''UNKNOWN''), (''positive_status'', PStr ''UNKNOWN''),
                       (''comment_category'', PStr ''UNKNOWN''), (''keywords'', PList [])],
          comment_b @ [(''sentiment'', PStr ''UNKNOWN''), (''positive_status'', PStr ''UNKNOWN''),
                       (''comment_category'', PStr ''UNKNOWN''), (''keywords'', PList [])]]"
proof
  show "map_sum id comments_v1
     (classify_comments (world_of empty_answer_service) [comment_a, comment_b] 1 [])
   = Inr [comment_a @ [(''sentiment'', PStr []), (''positive_status'', PStr []),
                       (''comment_category'', PStr []), (''keywords'', PList [])],
          comment_b @ [(''sentiment'', PStr []), (''positive_status'', PStr []),
                       (''comment_category'', PStr []), (''keywords'', PList [])]]"
    by (simp add: classify_comments_def range_list_0_2_1 batch_step_v1_def try_block_v1_def
      classification_dict_v1_def reconcile_comment_v1_def validated_v1_def
      empty_answer_service_def eval_defs)
  show "map_sum id comments
     (classify_and_upload_comments (world_of empty_answer_service) [comment_a, comment_b]
        (PStr ''v'') 1 [])
   = Inr [comment_a @ [(''sentiment'', PStr ''UNKNOWN''), (''positive_status'', PStr ''UNKNOWN''),
                       (''comment_category'', PStr ''UNKNOWN''), (''keywords'', PList [])],
          comment_b @ [(''sentiment'', PStr ''UNKNOWN''), (''positive_status'', PStr ''UNKNOWN''),
                       (''comment_category'', PStr ''UNKNOWN''), (''keywords'', PList [])]]"
    by (simp add: classify_and_upload_comments_def total_batches_def range_list_0_2_1 enumerate_eq_zip
      batch_step_def try_block_def upt_rec
      classification_dict_def reconcile_comment_def validated_def save_comments_to_csv_def
      upload_comments_batch_to_s3_def truthy_def
      empty_answer_service_def eval_defs)
qed

text \<open>
  C5. The run of the old file on two comments with batch size 1, so that the second batch
  is the second comment alone: the prompt sent for the second batch holds the line of the
  first comment as well, since the prompt is never set back to the template. The upgraded
  file, on the same input, sends for each batch the template and the lines of that batch
  only (in general: \<open>batch_step_calls\<close>).
\<close>

theorem old_file_prompt_accumulates:
  "map_sum id api_calls_v1
     (classify_comments (world_of empty_answer_service) [comment_a, comment_b] 1 [])
   = Inr [[Lit classification_prompt_v1, Fmt (PStr ''a''), Lit '' : '', Fmt (PStr ''hello''), Lit '',''],
          [Lit classification_prompt_v1, Fmt (PStr ''a''), Lit '' : '', Fmt (PStr ''hello''), Lit '','',
           Fmt (PStr ''b''), Lit '' : '', Fmt (PStr ''bye''), Lit '','']]
   \<and> batch_comments [comment_a, comment_b] 1 1 = [comment_b]
   \<and> map_sum id api_calls
     (classify_and_upload_comments (world_of empty_answer_service) [comment_a, comment_b]
        (PStr ''v'') 1 [])
   = Inr [[Lit classification_prompt_template, Fmt (PStr ''a''), Lit '' : '', Fmt (PStr ''hello''),
           Lit '',\<newline>''],
          [Lit classification_prompt_template, Fmt (PStr ''b''), Lit '' : '', Fmt (PStr ''bye''),
           Lit '',\<newline>'']]"
proof (intro conjI)
  show "map_sum id api_calls_v1
     (classify_comments (world_of empty_answer_service) [comment_a, comment_b] 1 [])
   = Inr [[Lit classification_prompt_v1, Fmt (PStr ''a''), Lit '' : '', Fmt (PStr ''hello''), Lit '',''],
          [Lit classification_prompt_v1, Fmt (PStr ''a''), Lit '' : '', Fmt (PStr ''hello''), Lit '','',
           Fmt (PStr ''b''), Lit '' : '', Fmt (PStr ''bye''), Lit '','']]"
    by (simp add: classify_comments_def range_list_0_2_1 batch_step_v1_def try_block_v1_def
      classification_dict_v1_def reconcile_comment_v1_def validated_v1_def
      empty_answer_service_def eval_defs)
  show "batch_comments [comment_a, comment_b] 1 1 = [comment_b]"
    by (simp add: batch_comments_def py_slice_def clamp_index_def)
  show "map_sum id api_calls
     (classify_and_upload_comments (world_of empty_answer_service) [comment_a, comment_b]
        (PStr ''v'') 1 [])
   = Inr [[Lit classification_prompt_template, Fmt (PStr ''a''), Lit '' : '', Fmt (PStr ''hello''),
           Lit '',\<newline>''],
          [Lit classification_prompt_template, Fmt (PStr ''b''), Lit '' : '', Fmt (PStr ''bye''),
           Lit '',\<newline>'']]"
    by (simp add: classify_and_upload_comments_def total_batches_def range_list_0_2_1 enumerate_eq_zip
      batch_step_def try_block_def upt_rec
      classification_dict_def reconcile_comment_def validated_def save_comments_to_csv_def
      upload_comments_batch_to_s3_def truthy_def
      empty_answer_service_def eval_defs)
qed

text \<open>
  C8. Whenever \<^verbatim>\<open>call_openai_api\<close> raises, the exception that reaches the caller is of
  one class, tenacity's \<^verbatim>\<open>RetryError\<close>, whatever failed: it wraps the exception of
  the third attempt, which is \<^verbatim>\<open>JSONDecodeError\<close> for a body that does not parse and
  the client's own exception otherwise. The caller's \<^verbatim>\<open>try\<close> block ends the same way
  for either: with the exception, the batch untouched and no URI.
\<close>

theorem error_kind_wrapped:
  "(\<forall>e. fst (call_openai_api w p calls) = Inl e \<longrightarrow>
      exc_class e = RetryError
      \<and> (\<exists>e3. attempt_at w p calls 2 = Inl e3 \<and> last_attempt e = Some e3))
   \<and> attempt_outcome ContentNotJSON = Inl (Exc JSONDecodeError None)
   \<and> (\<forall>e. attempt_outcome (CreateRaises e) = Inl e)
   \<and> (\<forall>e calls1 vid num batch. call_openai_api w p calls = (Inl e, calls1) \<longrightarrow>
        try_block w vid num p batch calls = (Some e, batch, None, calls1))"
proof (intro conjI allI impI)
  fix e assume a: "fst (call_openai_api w p calls) = Inl e"
  from call_openai_api_raises[OF a] show "exc_class e = RetryError" by auto
  from call_openai_api_raises[OF a]
  show "\<exists>e3. attempt_at w p calls 2 = Inl e3 \<and> last_attempt e = Some e3" by auto
next
  show "attempt_outcome ContentNotJSON = Inl (Exc JSONDecodeError None)" by simp
next
  fix e show "attempt_outcome (CreateRaises e) = Inl e" by simp
next
  fix e calls1 vid num batch
  assume "call_openai_api w p calls = (Inl e, calls1)"
  then show "try_block w vid num p batch calls = (Some e, batch, None, calls1)"
    by (rule try_block_call_fails)
qed

theorem error_kind_wrapped_witness:
  "fst (call_openai_api (world_of down_service) [Lit ''p''] [])
     = Inl (Exc RetryError (Some (Exc APIError None)))
   \<and> fst (call_openai_api (world_of garbled_service) [Lit ''p''] [])
     = Inl (Exc RetryError (Some (Exc JSONDecodeError None)))
   \<and> exc_class (Exc RetryError (Some (Exc APIError None))) = RetryError
   \<and> exc_class (Exc RetryError (Some (Exc JSONDecodeError None))) = RetryError
   \<and> try_block (world_of garbled_service) (PStr ''v'') 1 [Lit ''p''] [comment_a] []
     = (Some (Exc RetryError (Some (Exc JSONDecodeError None))), [comment_a], None,
        [[Lit ''p''], [Lit ''p''], [Lit ''p'']])"
proof -
  have d: "call_openai_api (world_of down_service) [Lit ''p''] []
     = (Inl (Exc RetryError (Some (Exc APIError None))), [[Lit ''p''], [Lit ''p''], [Lit ''p'']])"
    by (simp add: call_openai_api_cases world_of_def down_service_def)
  have g: "call_openai_api (world_of garbled_service) [Lit ''p''] []
     = (Inl (Exc RetryError (Some (Exc JSONDecodeError None))), [[Lit ''p''], [Lit ''p''], [Lit ''p'']])"
    by (simp add: call_openai_api_cases world_of_def garbled_service_def)
  from error_kind_wrapped[of "world_of down_service" "[Lit ''p'']" "[]"]
       error_kind_wrapped[of "world_of garbled_service" "[Lit ''p'']" "[]"] d g
  show ?thesis by simp
qed

text \<open>
  C8, as stated: a service that raises on every call and a service whose body never
  parses give the caller the same class of exception, and the caller's \<^verbatim>\<open>try\<close> block
  leaves the same batch for both.
\<close>

theorem same_error_kind_counterexample:
  "map_sum exc_class id (fst (call_openai_api (world_of down_service) [Lit ''p''] []))
     = Inl RetryError
   \<and> map_sum exc_class id (fst (call_openai_api (world_of garbled_service) [Lit ''p''] []))
     = Inl RetryError
   \<and> fst (snd (try_block (world_of down_service) (PStr ''v'') 1 [Lit ''p''] [comment_a] []))
     = fst (snd (try_block (world_of garbled_service) (PStr ''v'') 1 [Lit ''p''] [comment_a] []))"
  by (simp add: call_openai_api_cases try_block_def world_of_def down_service_def
      garbled_service_def)

text \<open>
  C9. When the event has a video id and a batch size, the stored comment list is not empty
  and \<^verbatim>\<open>classify_and_upload_comments\<close> returns, the handler of the upgraded file
  returns status 500 when the list of URIs is empty and status 200 with that list when
  it is not. A response of the handler has status 200 exactly when the run returned a
  non-empty list of URIs, which the body then carries.
\<close>

theorem handler_status:
  "(\<forall>vid bs st. getitem event ''video_id'' = Inr vid
        \<and> py_int w (dict_get event ''batch_size'' (PInt 20)) = Inr bs
        \<and> fetch_comments_from_s3 w vid \<noteq> []
        \<and> classify_and_upload_comments w (fetch_comments_from_s3 w vid) vid bs [] = Inr st
      \<longrightarrow> lambda_handler w event =
            Inr (if s3_uris st = []
                 then \<lparr>statusCode = 500,
                       body = Message [Lit ''Failed to classify and upload comments.'']\<rparr>
                 else \<lparr>statusCode = 200, body = Uploaded (s3_uris st)\<rparr>))
   \<and> (\<forall>r. lambda_handler w event = Inr r \<longrightarrow>
        (statusCode r = 200) =
        (\<exists>vid bs st. getitem event ''video_id'' = Inr vid
           \<and> py_int w (dict_get event ''batch_size'' (PInt 20)) = Inr bs
           \<and> fetch_comments_from_s3 w vid \<noteq> []
           \<and> classify_and_upload_comments w (fetch_comments_from_s3 w vid) vid bs [] = Inr st
           \<and> s3_uris st \<noteq> [] \<and> body r = Uploaded (s3_uris st)))"
proof (intro conjI allI impI)
  fix vid bs st
  assume "getitem event ''video_id'' = Inr vid
        \<and> py_int w (dict_get event ''batch_size'' (PInt 20)) = Inr bs
        \<and> fetch_comments_from_s3 w vid \<noteq> []
        \<and> classify_and_upload_comments w (fetch_comments_from_s3 w vid) vid bs [] = Inr st"
  then show "lambda_handler w event =
            Inr (if s3_uris st = []
                 then \<lparr>statusCode = 500,
                       body = Message [Lit ''Failed to classify and upload comments.'']\<rparr>
                 else \<lparr>statusCode = 200, body = Uploaded (s3_uris st)\<rparr>)"
    by (simp add: lambda_handler_def Let_def)
next
  fix r
  assume r: "lambda_handler w event = Inr r"
  show "(statusCode r = 200) =
        (\<exists>vid bs st. getitem event ''video_id'' = Inr vid
           \<and> py_int w (dict_get event ''batch_size'' (PInt 20)) = Inr bs
           \<and> fetch_comments_from_s3 w vid \<noteq> []
           \<and> classify_and_upload_comments w (fetch_comments_from_s3 w vid) vid bs [] = Inr st
           \<and> s3_uris st \<noteq> [] \<and> body r = Uploaded (s3_uris st))"
  proof
    assume "statusCode r = 200"
    with r show "\<exists>vid bs st. getitem event ''video_id'' = Inr vid
           \<and> py_int w (dict_get event ''batch_size'' (PInt 20)) = Inr bs
           \<and> fetch_comments_from_s3 w vid \<noteq> []
           \<and> classify_and_upload_comments w (fetch_comments_from_s3 w vid) vid bs [] = Inr st
           \<and> s3_uris st \<noteq> [] \<and> body r = Uploaded (s3_uris st)"
      by (auto simp: lambda_handler_def Let_def missing_parameter_def invalid_batch_size_def
          not_found_def split: sum.splits if_splits)
  next
    assume "\<exists>vid bs st. getitem event ''video_id'' = Inr vid
           \<and> py_int w (dict_get event ''batch_size'' (PInt 20)) = Inr bs
           \<and> fetch_comments_from_s3 w vid \<noteq> []
           \<and> classify_and_upload_comments w (fetch_comments_from_s3 w vid) vid bs [] = Inr st
           \<and> s3_uris st \<noteq> [] \<and> body r = Uploaded (s3_uris st)"
    with r show "statusCode r = 200"
      by (auto simp: lambda_handler_def Let_def)
  qed
qed

theorem handler_status_witness:
  "lambda_handler (stored_world True) (event_with 1) =
     Inr \<lparr>statusCode = 200,
          body = Uploaded
           [[Lit ''s3://'', Lit ''bucket'', Lit ''/'', Lit ''classified/'', Fmt (PStr ''v''),
             Lit ''/classified_comments_'', Fmt (PStr ''v''), Lit ''_batch_'', Fmt (PInt 1), Lit ''.csv''],
            [Lit ''s3://'', Lit ''bucket'', Lit ''/'', Lit ''classified/'', Fmt (PStr ''v''),
             Lit ''/classified_comments_'', Fmt (PStr ''v''), Lit ''_batch_'', Fmt (PInt 2), Lit ''.csv'']]\<rparr>
   \<and> lambda_handler (stored_world False) (event_with 1) =
     Inr \<lparr>statusCode = 500, body = Message [Lit ''Failed to classify and upload comments.'']\<rparr>"
proof -
  obtain st where st: "classify_and_upload_comments (stored_world True) [comment_a, comment_b]
      (PStr ''v'') 1 [] = Inr st"
    using stored_world_run[of True] by (cases "classify_and_upload_comments (stored_world True)
      [comment_a, comment_b] (PStr ''v'') 1 []") auto
  obtain sf where sf: "classify_and_upload_comments (stored_world False) [comment_a, comment_b]
      (PStr ''v'') 1 [] = Inr sf"
    using stored_world_run[of False] by (cases "classify_and_upload_comments (stored_world False)
      [comment_a, comment_b] (PStr ''v'') 1 []") auto
  from st sf stored_world_run[of True] stored_world_run[of False]
  have u: "s3_uris st =
           [[Lit ''s3://'', Lit ''bucket'', Lit ''/'', Lit ''classified/'', Fmt (PStr ''v''),
             Lit ''/classified_comments_'', Fmt (PStr ''v''), Lit ''_batch_'', Fmt (PInt 1), Lit ''.csv''],
            [Lit ''s3://'', Lit ''bucket'', Lit ''/'', Lit ''classified/'', Fmt (PStr ''v''),
             Lit ''/classified_comments_'', Fmt (PStr ''v''), Lit ''_batch_'', Fmt (PInt 2), Lit ''.csv'']]"
    "s3_uris sf = []" by simp_all
  from handler_status[of "event_with 1" "stored_world True"]
       handler_status[of "event_with 1" "stored_world False"]
       stored_world_event st sf u
  show ?thesis by simp
qed

text \<open>
  C10. Neither handler checks that the batch size is positive. Take an event with a
  video id whose batch size converts to \<open>bs\<close>, and a stored comment list that is not
  empty. For \<open>bs = 0\<close> the handler of the upgraded file raises \<^verbatim>\<open>ZeroDivisionError\<close>,
  from the division in \<open>total_batches\<close>, which comes before the range of the loop; the
  handler of the old file raises the \<^verbatim>\<open>ValueError\<close> of the range with step zero. For
  \<open>bs < 0\<close> the range is empty: the upgraded handler returns status 500, the old one
  writes the comments as they are and returns 200 when the upload succeeds. No response
  has status 400.
\<close>

theorem unchecked_batch_size:
  assumes "getitem event ''video_id'' = Inr vid"
    and "py_int w (dict_get event ''batch_size'' (PInt 20)) = Inr bs"
    and "fetch_comments_from_s3 w vid = cs" and "cs \<noteq> []"
  shows "(bs = 0 \<longrightarrow>
            lambda_handler w event = Inl (Exc ZeroDivisionError None)
            \<and> total_batches cs bs = Inl (Exc ZeroDivisionError None)
            \<and> lambda_handler_v1 w event = Inl (Exc ValueError None)
            \<and> py_range 0 (int (length cs)) bs = Inl (Exc ValueError None))
       \<and> (bs < 0 \<longrightarrow>
            py_range 0 (int (length cs)) bs = Inr []
            \<and> lambda_handler w event =
                Inr \<lparr>statusCode = 500,
                     body = Message [Lit ''Failed to classify and upload comments.'']\<rparr>
            \<and> lambda_handler_v1 w event =
                (case save_comments_to_csv cs of
                   Inl e \<Rightarrow> Inl e
                 | Inr None \<Rightarrow>
                     Inr \<lparr>statusCode = 500, body = Message [Lit ''Failed to save comments to CSV.'']\<rparr>
                 | Inr (Some csv_file) \<Rightarrow>
                     if truthy (upload_comments_to_s3 w csv_file vid)
                     then Inr \<lparr>statusCode = 200,
                               body = Uploaded_v1 (upload_comments_to_s3 w csv_file vid)\<rparr>
                     else Inr \<lparr>statusCode = 500,
                               body = Message [Lit ''Failed to upload CSV to S3.'']\<rparr>))
       \<and> (bs \<le> 0 \<longrightarrow>
            (\<forall>r. lambda_handler w event = Inr r \<or> lambda_handler_v1 w event = Inr r
               \<longrightarrow> statusCode r \<noteq> 400))"
proof (intro conjI impI allI)
  assume z: "bs = 0"
  with assms show "lambda_handler w event = Inl (Exc ZeroDivisionError None)"
    by (simp add: lambda_handler_def classify_and_upload_comments_def total_batches_def)
  from z show "total_batches cs bs = Inl (Exc ZeroDivisionError None)"
    by (simp add: total_batches_def)
  from z assms show "lambda_handler_v1 w event = Inl (Exc ValueError None)"
    by (simp add: lambda_handler_v1_def classify_comments_def py_range_def)
  from z show "py_range 0 (int (length cs)) bs = Inl (Exc ValueError None)"
    by (simp add: py_range_def)
next
  assume n: "bs < 0"
  then show "py_range 0 (int (length cs)) bs = Inr []"
    by (simp add: py_range_def range_list_negative_step)
  from n assms show "lambda_handler w event =
                Inr \<lparr>statusCode = 500,
                     body = Message [Lit ''Failed to classify and upload comments.'']\<rparr>"
    by (simp add: lambda_handler_def classify_and_upload_comments_negative)
  from n assms show "lambda_handler_v1 w event =
                (case save_comments_to_csv cs of
                   Inl e \<Rightarrow> Inl e
                 | Inr None \<Rightarrow>
                     Inr \<lparr>statusCode = 500, body = Message [Lit ''Failed to save comments to CSV.'']\<rparr>
                 | Inr (Some csv_file) \<Rightarrow>
                     if truthy (upload_comments_to_s3 w csv_file vid)
                     then Inr \<lparr>statusCode = 200,
                               body = Uploaded_v1 (upload_comments_to_s3 w csv_file vid)\<rparr>
                     else Inr \<lparr>statusCode = 500,
                               body = Message [Lit ''Failed to upload CSV to S3.'']\<rparr>)"
    by (simp add: lambda_handler_v1_def classify_comments_negative Let_def
        split: sum.splits option.splits)
next
  fix r
  assume le: "bs \<le> 0" and r: "lambda_handler w event = Inr r \<or> lambda_handler_v1 w event = Inr r"
  show "statusCode r \<noteq> 400"
  proof (cases "bs = 0")
    case True
    with assms r show ?thesis
      by (simp add: lambda_handler_def lambda_handler_v1_def classify_and_upload_comments_def
          total_batches_def classify_comments_def py_range_def)
  next
    case False
    with le have n: "bs < 0" by simp
    with assms r show ?thesis
      by (auto simp: lambda_handler_def lambda_handler_v1_def classify_and_upload_comments_negative
          classify_comments_negative Let_def split: sum.splits option.splits if_splits)
  qed
qed

theorem unchecked_batch_size_witness:
  "lambda_handler (stored_world True) (event_with 0) = Inl (Exc ZeroDivisionError None)
   \<and> lambda_handler_v1 (stored_world True) (event_with 0) = Inl (Exc ValueError None)
   \<and> lambda_handler (stored_world True) (event_with (- 1)) =
       Inr \<lparr>statusCode = 500, body = Message [Lit ''Failed to classify and upload comments.'']\<rparr>"
  using unchecked_batch_size[OF stored_world_event(1) stored_world_event(2) stored_world_event(3),
          of 0 True]
        unchecked_batch_size[OF stored_world_event(1) stored_world_event(2) stored_world_event(3),
          of "- 1" True]
  by simp

text \<open>
  C10, as stated: with batch size 0 the exception of the upgraded handler is the division
  by zero and not the range's \<^verbatim>\<open>ValueError\<close>; with batch size \<open>-1\<close> the old
  handler returns status 200.
\<close>

theorem zero_batch_size_counterexample:
  "lambda_handler (stored_world True) (event_with 0) = Inl (Exc ZeroDivisionError None)
   \<and> lambda_handler (stored_world True) (event_with 0) \<noteq> Inl (Exc ValueError None)
   \<and> lambda_handler_v1 (stored_world True) (event_with (- 1)) =
       Inr \<lparr>statusCode = 200,
            body = Uploaded_v1 [Lit ''s3://'', Lit ''bucket'', Lit ''/'',
                     Lit ''classified/classified_comments_'', Fmt (PStr ''v''), Lit ''.csv'']\<rparr>"
  by (simp add: lambda_handler_def lambda_handler_v1_def stored_world_event
      classify_and_upload_comments_def total_batches_def classify_comments_negative
      save_comments_to_csv_def comment_a_def comment_b_def upload_comments_to_s3_def truthy_def
      stored_world_s3)

end
